theory Spec2Isabelle
  imports Complex_Main "HOL-Library.Code_Target_Nat"
begin

section \<open>JavaScript strings\<close>

text \<open>
  A JavaScript string is a sequence of UTF-16 code units; \<open>includes\<close>, \<open>match\<close>,
  \<open>replace\<close> and \<open>substring\<close> all work on code units.  ASCII literals of the source
  are written \<open>ascii ''...''\<close>, the Arabic ones as the code units of the source file.
\<close>

type_synonym jsstring = "nat list"

definition ascii :: "string \<Rightarrow> jsstring" where
  "ascii s = map of_char s"

fun startsWith :: "'a list \<Rightarrow> 'a list \<Rightarrow> bool" where
  "startsWith s [] = True"
| "startsWith [] (p # ps) = False"
| "startsWith (c # cs) (p # ps) = (c = p \<and> startsWith cs ps)"

text \<open>\<open>s.includes(p)\<close>: \<open>p\<close> occurs in \<open>s\<close> as a contiguous run.\<close>

fun includes_str :: "'a list \<Rightarrow> 'a list \<Rightarrow> bool" where
  "includes_str [] p = (p = [])"
| "includes_str (c # cs) p = (startsWith (c # cs) p \<or> includes_str cs p)"

text \<open>
  The host: what the program reads from its runtime and not from its arguments.
  \<open>tzaUTC h t\<close> is the offset (ms) of local time from UTC at the instant \<open>t\<close>,
  \<open>tzaLocal h t\<close> the offset at the local time value \<open>t\<close> (ECMAScript's
  \<open>LocalTZA(t, true)\<close> and \<open>LocalTZA(t, false)\<close>); \<open>lowerTable h c\<close> is the
  lower-case mapping of the Unicode tables for a code unit \<open>c\<close> outside ASCII;
  \<open>platform h\<close> selects the \<open>path\<close> module, \<open>path.posix\<close> or \<open>path.win32\<close>.
\<close>

datatype platform = Posix | Win32

record host =
  tzaUTC :: "int \<Rightarrow> int"
  tzaLocal :: "int \<Rightarrow> int"
  lowerTable :: "nat \<Rightarrow> jsstring"
  platform :: platform

definition lowerUnit :: "host \<Rightarrow> nat \<Rightarrow> jsstring" where
  "lowerUnit h c =
     (if 65 \<le> c \<and> c \<le> 90 then [c + 32]
      else if c < 128 then [c]
      else lowerTable h c)"

definition toLowerCase :: "host \<Rightarrow> jsstring \<Rightarrow> jsstring" where
  "toLowerCase h s = concat (map (lowerUnit h) s)"

text \<open>Decimal rendering of a length (\<open>String(n)\<close>, a template literal's \<open>${n}\<close>).\<close>

fun showNat :: "nat \<Rightarrow> jsstring" where
  "showNat n = (if n < 10 then [48 + n] else showNat (n div 10) @ [48 + n mod 10])"

declare showNat.simps [simp del]

definition showInt :: "int \<Rightarrow> jsstring" where
  "showInt i = (if i < 0 then 45 # showNat (nat (- i)) else showNat (nat i))"

text \<open>\<open>String(n).padStart(w, '0')\<close> for a non-negative integer.\<close>

definition padStart0 :: "nat \<Rightarrow> jsstring \<Rightarrow> jsstring" where
  "padStart0 w s = replicate (w - length s) 48 @ s"

section \<open>The duration patterns\<close>

text \<open>
  The three regular expressions of the source have one shape,
  \<open>/(\d+)\s*(u1|u2)/i\<close>.  \<open>\d\<close> is an ASCII digit, \<open>\s\<close> the white space and
  line terminators of ECMAScript.  Under the flag \<open>i\<close> (without \<open>u\<close>) two code units
  match when their canonical forms agree; a code unit outside ASCII is never
  canonicalised into ASCII, and the Arabic letters have no case, so the canonical
  form folds \<open>a\<close>..\<open>z\<close> only.
\<close>

definition isDigit :: "nat \<Rightarrow> bool" where
  "isDigit c = (48 \<le> c \<and> c \<le> 57)"

definition isSpace :: "nat \<Rightarrow> bool" where
  "isSpace c =
     (c \<in> {9, 10, 11, 12, 13, 32, 160, 0x1680, 0x2028, 0x2029, 0x202F, 0x205F, 0x3000, 0xFEFF}
      \<or> (0x2000 \<le> c \<and> c \<le> 0x200A))"

definition canonicalize :: "nat \<Rightarrow> nat" where
  "canonicalize c = (if 97 \<le> c \<and> c \<le> 122 then c - 32 else c)"

fun matchLiteral :: "jsstring \<Rightarrow> jsstring \<Rightarrow> bool" where
  "matchLiteral [] s = True"
| "matchLiteral (p # ps) [] = False"
| "matchLiteral (p # ps) (c # cs) = (canonicalize p = canonicalize c \<and> matchLiteral ps cs)"

text \<open>
  A match attempt at the start of \<open>s\<close>.  The greedy \<open>\d+\<close> takes the whole run of
  digits and the greedy \<open>\s*\<close> the whole run of white space; giving back a digit or
  a space lets nothing else match, since the next pattern element would then face
  that digit or space.  The result is capture group 1.
\<close>

definition matchAt :: "jsstring list \<Rightarrow> jsstring \<Rightarrow> jsstring option" where
  "matchAt units s =
     (let ds = takeWhile isDigit s;
          r = dropWhile isSpace (dropWhile isDigit s)
      in if ds \<noteq> [] \<and> list_ex (\<lambda>u. matchLiteral u r) units then Some ds else None)"

text \<open>\<open>s.match(re)\<close> without the flag \<open>g\<close>: the leftmost position that matches.\<close>

fun matchNumberUnit :: "jsstring list \<Rightarrow> jsstring \<Rightarrow> jsstring option" where
  "matchNumberUnit units [] = None"
| "matchNumberUnit units (c # cs) =
     (case matchAt units (c # cs) of
        Some ds \<Rightarrow> Some ds
      | None \<Rightarrow> matchNumberUnit units cs)"

text \<open>\<open>parseInt\<close> of a run of decimal digits.\<close>

definition parseInt :: "jsstring \<Rightarrow> int" where
  "parseInt ds = foldl (\<lambda>acc c. 10 * acc + (int c - 48)) 0 ds"

definition kw_mustamirr :: jsstring where
  "kw_mustamirr = [0x645, 0x633, 0x62A, 0x645, 0x631]"

definition dayUnits :: "jsstring list" where
  "dayUnits = [[0x64A, 0x648, 0x645], ascii ''day'']"

definition weekUnits :: "jsstring list" where
  "weekUnits = [[0x623, 0x633, 0x628, 0x648, 0x639], ascii ''week'']"

definition monthUnits :: "jsstring list" where
  "monthUnits = [[0x634, 0x647, 0x631], ascii ''month'']"

text \<open>\<open>duration?.match(re)\<close>: no match on a missing duration.\<close>

definition optMatch :: "jsstring list \<Rightarrow> jsstring option \<Rightarrow> jsstring option" where
  "optMatch units d = (case d of None \<Rightarrow> None | Some s \<Rightarrow> matchNumberUnit units s)"

section \<open>Dates\<close>

text \<open>
  The time value of a \<open>Date\<close> is an integral number of milliseconds since the epoch,
  at most \<open>8.64e15\<close> in absolute value, or NaN (an invalid date), here \<open>None\<close>.
  All time values are integers below \<open>2^53\<close>, so the arithmetic of the source on
  them is exact and is written over \<open>int\<close>.  The calendar functions are those of
  the ECMAScript specification.
\<close>

type_synonym date = "int option"

definition msPerDay :: int where
  "msPerDay = 86400000"

definition Day :: "int \<Rightarrow> int" where
  "Day t = t div msPerDay"

definition TimeWithinDay :: "int \<Rightarrow> int" where
  "TimeWithinDay t = t mod msPerDay"

definition DayFromYear :: "int \<Rightarrow> int" where
  "DayFromYear y =
     365 * (y - 1970) + (y - 1969) div 4 - (y - 1901) div 100 + (y - 1601) div 400"

definition DaysInYear :: "int \<Rightarrow> int" where
  "DaysInYear y =
     (if y mod 4 \<noteq> 0 then 365
      else if y mod 100 \<noteq> 0 then 366
      else if y mod 400 \<noteq> 0 then 365
      else 366)"

lemma DayFromYear_step: "DayFromYear y < DayFromYear (y + 1)"
proof -
  define a where "a = (y - 1969) div 4"
  define a' where "a' = (y - 1968) div 4"
  define b where "b = (y - 1901) div 100"
  define b' where "b' = (y - 1900) div 100"
  define c where "c = (y - 1601) div 400"
  define c' where "c' = (y - 1600) div 400"
  have "a \<le> a'"
    unfolding a_def a'_def by (rule zdiv_mono1) simp_all
  moreover have "b' \<le> (y - 1901 + 100) div 100"
    unfolding b'_def by (rule zdiv_mono1) simp_all
  then have "b' \<le> b + 1"
    unfolding b_def by simp
  moreover have "c \<le> c'"
    unfolding c_def c'_def by (rule zdiv_mono1) simp_all
  moreover have "DayFromYear y = 365 * (y - 1970) + a - b + c"
    by (simp add: DayFromYear_def a_def b_def c_def)
  moreover have "DayFromYear (y + 1) = 365 * (y - 1969) + a' - b' + c'"
    by (simp add: DayFromYear_def a'_def b'_def c'_def)
  ultimately have "DayFromYear (y + 1) - DayFromYear y = 365 + (a' - a) - (b' - b) + (c' - c)"
    and "0 \<le> a' - a" and "b' - b \<le> 1" and "0 \<le> c' - c"
    by simp_all
  then show ?thesis
    by linarith
qed

text \<open>
  \<open>YearFromTime(t)\<close> is the largest year \<open>y\<close> with \<open>DayFromYear y \<le> Day t\<close>: a search
  down and then up from an estimate.
\<close>

function yearDown :: "int \<Rightarrow> int \<Rightarrow> int" where
  "yearDown d y = (if d < DayFromYear y then yearDown d (y - 1) else y)"
  by pat_completeness auto
termination
proof (relation "measure (\<lambda>(d, y). nat (DayFromYear y - d))")
  show "wf (measure (\<lambda>(d, y). nat (DayFromYear y - d)))"
    by simp
next
  fix d y :: int
  assume "d < DayFromYear y"
  moreover have "DayFromYear (y - 1) < DayFromYear y"
    using DayFromYear_step [of "y - 1"] by simp
  ultimately show "((d, y - 1), (d, y)) \<in> measure (\<lambda>(d, y). nat (DayFromYear y - d))"
    by simp
qed

function yearUp :: "int \<Rightarrow> int \<Rightarrow> int" where
  "yearUp d y = (if DayFromYear (y + 1) \<le> d then yearUp d (y + 1) else y)"
  by pat_completeness auto
termination
proof (relation "measure (\<lambda>(d, y). nat (d + 1 - DayFromYear (y + 1)))")
  show "wf (measure (\<lambda>(d, y). nat (d + 1 - DayFromYear (y + 1))))"
    by simp
next
  fix d y :: int
  assume "DayFromYear (y + 1) \<le> d"
  moreover have "DayFromYear (y + 1) < DayFromYear (y + 1 + 1)"
    by (rule DayFromYear_step)
  ultimately show "((d, y + 1), (d, y)) \<in> measure (\<lambda>(d, y). nat (d + 1 - DayFromYear (y + 1)))"
    by simp
qed

declare yearDown.simps [simp del] yearUp.simps [simp del]

definition YearFromTime :: "int \<Rightarrow> int" where
  "YearFromTime t = yearUp (Day t) (yearDown (Day t) (1970 + Day t div 365))"

definition InLeapYear :: "int \<Rightarrow> bool" where
  "InLeapYear t = (DaysInYear (YearFromTime t) = 366)"

definition DayWithinYear :: "int \<Rightarrow> int" where
  "DayWithinYear t = Day t - DayFromYear (YearFromTime t)"

text \<open>The day of the year on which month \<open>m\<close> (0 to 11) starts.\<close>

definition monthStart :: "bool \<Rightarrow> int \<Rightarrow> int" where
  "monthStart leap m =
     (let l = (if leap then 1 else 0) in
      if m = 0 then 0 else if m = 1 then 31 else if m = 2 then 59 + l
      else if m = 3 then 90 + l else if m = 4 then 120 + l else if m = 5 then 151 + l
      else if m = 6 then 181 + l else if m = 7 then 212 + l else if m = 8 then 243 + l
      else if m = 9 then 273 + l else if m = 10 then 304 + l else 334 + l)"

definition MonthFromTime :: "int \<Rightarrow> int" where
  "MonthFromTime t =
     (let d = DayWithinYear t; l = (if InLeapYear t then 1 else 0) in
      if d < 31 then 0 else if d < 59 + l then 1 else if d < 90 + l then 2
      else if d < 120 + l then 3 else if d < 151 + l then 4 else if d < 181 + l then 5
      else if d < 212 + l then 6 else if d < 243 + l then 7 else if d < 273 + l then 8
      else if d < 304 + l then 9 else if d < 334 + l then 10 else 11)"

definition DateFromTime :: "int \<Rightarrow> int" where
  "DateFromTime t = DayWithinYear t - monthStart (InLeapYear t) (MonthFromTime t) + 1"

definition MakeDay :: "int \<Rightarrow> int \<Rightarrow> int \<Rightarrow> int" where
  "MakeDay year month dt =
     (let ym = year + month div 12; mn = month mod 12
      in DayFromYear ym + monthStart (DaysInYear ym = 366) mn + dt - 1)"

definition MakeDate :: "int \<Rightarrow> int \<Rightarrow> int" where
  "MakeDate day time = day * msPerDay + time"

definition maxTime :: int where
  "maxTime = 8640000000000000"

definition TimeClip :: "int \<Rightarrow> date" where
  "TimeClip t = (if \<bar>t\<bar> \<le> maxTime then Some t else None)"

definition LocalTime :: "host \<Rightarrow> int \<Rightarrow> int" where
  "LocalTime h t = t + tzaUTC h t"

definition UTC :: "host \<Rightarrow> int \<Rightarrow> int" where
  "UTC h t = t - tzaLocal h t"

text \<open>The methods of \<open>Date.prototype\<close> the source calls; a number that is NaN is \<open>None\<close>.\<close>

definition getDate :: "host \<Rightarrow> date \<Rightarrow> int option" where
  "getDate h d = map_option (\<lambda>t. DateFromTime (LocalTime h t)) d"

definition getMonth :: "host \<Rightarrow> date \<Rightarrow> int option" where
  "getMonth h d = map_option (\<lambda>t. MonthFromTime (LocalTime h t)) d"

definition getFullYear :: "host \<Rightarrow> date \<Rightarrow> int option" where
  "getFullYear h d = map_option (\<lambda>t. YearFromTime (LocalTime h t)) d"

definition setDate :: "host \<Rightarrow> date \<Rightarrow> int option \<Rightarrow> date" where
  "setDate h d dt =
     (case d of None \<Rightarrow> None | Some t0 \<Rightarrow>
      (case dt of None \<Rightarrow> None | Some n \<Rightarrow>
         (let t = LocalTime h t0;
              newDate = MakeDate (MakeDay (YearFromTime t) (MonthFromTime t) n) (TimeWithinDay t)
          in TimeClip (UTC h newDate))))"

definition setMonth :: "host \<Rightarrow> date \<Rightarrow> int option \<Rightarrow> date" where
  "setMonth h d month =
     (case d of None \<Rightarrow> None | Some t0 \<Rightarrow>
      (case month of None \<Rightarrow> None | Some m \<Rightarrow>
         (let t = LocalTime h t0;
              newDate = MakeDate (MakeDay (YearFromTime t) m (DateFromTime t)) (TimeWithinDay t)
          in TimeClip (UTC h newDate))))"

text \<open>\<open>now <= endDate\<close>: a comparison with NaN is false.  \<open>now\<close> is \<open>new Date()\<close>, never invalid.\<close>

definition dateLe :: "int \<Rightarrow> date \<Rightarrow> bool" where
  "dateLe now d = (case d of None \<Rightarrow> False | Some e \<Rightarrow> now \<le> e)"

text \<open>
  \<open>(now - prescribedDate) / (1000 * 60 * 60 * 24) <= w\<close>.  The quotient of the source
  is a double; the comparison with the integer \<open>w\<close> gives what the exact quotient
  gives, because rounding is monotone and \<open>w\<close> is a double.
\<close>

definition withinDays :: "int \<Rightarrow> date \<Rightarrow> real \<Rightarrow> bool" where
  "withinDays now d w =
     (case d of None \<Rightarrow> False
      | Some p \<Rightarrow> real_of_int (now - p) / real_of_int (1000 * 60 * 60 * 24) \<le> w)"

section \<open>The medication service\<close>

text \<open>
  A prescription as embedded in a visit.  \<open>duration\<close> is free text and may be
  missing (the source guards every use of it); the name is a string.
\<close>

record prescription =
  medicationName :: jsstring
  dosage :: "jsstring option"
  duration :: "jsstring option"
  notes_text :: "jsstring option"

text \<open>\<open>{...med, visitId, visitDate, doctorName, doctorSpecialization}\<close>\<close>

record medicationRecord = prescription +
  visitId :: nat
  visitDate :: date
  doctorName :: jsstring
  doctorSpecialization :: "jsstring option"

text \<open>The same, with \<open>isActive\<close>, in the history.\<close>

record historyRecord = medicationRecord +
  isActive :: bool

record person =
  firstName :: jsstring
  lastName :: jsstring

record doctor =
  personId :: "person option"
  specialization :: "jsstring option"

text \<open>
  A visit as the query returns it (\<open>populate\<close> has resolved the doctor, or left
  it null).  The fields are \<open>_id\<close>, \<open>visitDate\<close>, \<open>doctorId\<close> and
  \<open>prescribedMedications\<close> of the source.
\<close>

record visit =
  v_id :: nat
  v_visitDate :: date
  v_doctorId :: "doctor option"
  v_prescribedMedications :: "prescription list option"

subsection \<open>Activity of one medication\<close>

text \<open>The first test of the callback of \<open>filterActiveMedications\<close> (an empty string is falsy).\<close>

definition continuousInFilter :: "host \<Rightarrow> jsstring option \<Rightarrow> bool" where
  "continuousInFilter h d =
     (case d of None \<Rightarrow> False
      | Some s \<Rightarrow> s \<noteq> [] \<and>
          (includes_str s kw_mustamirr
           \<or> includes_str (toLowerCase h s) (ascii ''continuous'')
           \<or> includes_str (toLowerCase h s) (ascii ''ongoing'')))"

text \<open>
  \<open>endDate = new Date(prescribedDate); endDate.setDate(endDate.getDate() + n)\<close>
  and the same with \<open>setMonth\<close> and \<open>getMonth\<close>.
\<close>

definition addDays :: "host \<Rightarrow> date \<Rightarrow> int \<Rightarrow> date" where
  "addDays h prescribedDate n =
     setDate h prescribedDate (map_option (\<lambda>g. g + n) (getDate h prescribedDate))"

definition addMonths :: "host \<Rightarrow> date \<Rightarrow> int \<Rightarrow> date" where
  "addMonths h prescribedDate n =
     setMonth h prescribedDate (map_option (\<lambda>g. g + n) (getMonth h prescribedDate))"

text \<open>The callback of \<open>medications.filter\<close> in \<open>filterActiveMedications\<close>.\<close>

definition filterCallback :: "host \<Rightarrow> int \<Rightarrow> 'a medicationRecord_scheme \<Rightarrow> bool" where
  "filterCallback h now med =
     (if continuousInFilter h (duration med) then True
      else
     (case optMatch dayUnits (duration med) of
        Some ds \<Rightarrow> dateLe now (addDays h (visitDate med) (parseInt ds))
      | None \<Rightarrow>
     (case optMatch weekUnits (duration med) of
        Some ds \<Rightarrow> dateLe now (addDays h (visitDate med) (parseInt ds * 7))
      | None \<Rightarrow>
     (case optMatch monthUnits (duration med) of
        Some ds \<Rightarrow> dateLe now (addMonths h (visitDate med) (parseInt ds))
      | None \<Rightarrow> withinDays now (visitDate med) 90))))"

definition filterActiveMedications ::
  "host \<Rightarrow> int \<Rightarrow> 'a medicationRecord_scheme list \<Rightarrow> 'a medicationRecord_scheme list" where
  "filterActiveMedications h now medications = filter (filterCallback h now) medications"

definition continuousInHistory :: "host \<Rightarrow> jsstring option \<Rightarrow> bool" where
  "continuousInHistory h d =
     (case d of None \<Rightarrow> False
      | Some s \<Rightarrow> s \<noteq> [] \<and>
          (includes_str s kw_mustamirr
           \<or> includes_str (toLowerCase h s) (ascii ''continuous'')))"

definition isMedicationActive :: "host \<Rightarrow> int \<Rightarrow> 'a prescription_scheme \<Rightarrow> date \<Rightarrow> bool" where
  "isMedicationActive h now medication vDate =
     (let prescribedDate = vDate in
      if continuousInHistory h (duration medication) then True
      else
       (case optMatch dayUnits (duration medication) of
          Some ds \<Rightarrow> dateLe now (addDays h prescribedDate (parseInt ds))
        | None \<Rightarrow> withinDays now prescribedDate 30))"

subsection \<open>Collecting the medications of the visits\<close>

definition unspecifiedDoctor :: jsstring where
  "unspecifiedDoctor = [0x63A, 0x64A, 0x631, 0x20, 0x645, 0x62D, 0x62F, 0x62F]"

definition doctorNameOf :: "visit \<Rightarrow> jsstring" where
  "doctorNameOf v =
     (case v_doctorId v of None \<Rightarrow> unspecifiedDoctor
      | Some d \<Rightarrow>
     (case personId d of None \<Rightarrow> unspecifiedDoctor
      | Some p \<Rightarrow> [0x62F, 0x2E, 0x20] @ firstName p @ [0x20] @ lastName p))"

definition doctorSpecializationOf :: "visit \<Rightarrow> jsstring option" where
  "doctorSpecializationOf v =
     (case v_doctorId v of None \<Rightarrow> None | Some d \<Rightarrow> specialization d)"

definition withVisit :: "visit \<Rightarrow> prescription \<Rightarrow> medicationRecord" where
  "withVisit v med =
     \<lparr> medicationName = medicationName med, dosage = dosage med,
       duration = duration med, notes_text = notes_text med,
       visitId = v_id v, visitDate = v_visitDate v,
       doctorName = doctorNameOf v,
       doctorSpecialization = doctorSpecializationOf v \<rparr>"

text \<open>
  The two nested \<open>forEach\<close> loops of \<open>getCurrentMedications\<close>, with the array
  \<open>allMedications\<close> they push to as the accumulator.
\<close>

fun pushMedications :: "visit \<Rightarrow> prescription list \<Rightarrow> medicationRecord list \<Rightarrow> medicationRecord list" where
  "pushMedications v [] allMedications = allMedications"
| "pushMedications v (med # meds) allMedications =
     pushMedications v meds (allMedications @ [withVisit v med])"

fun forEachVisit :: "visit list \<Rightarrow> medicationRecord list \<Rightarrow> medicationRecord list" where
  "forEachVisit [] allMedications = allMedications"
| "forEachVisit (v # vs) allMedications =
     (case v_prescribedMedications v of
        None \<Rightarrow> forEachVisit vs allMedications
      | Some meds \<Rightarrow> forEachVisit vs (pushMedications v meds allMedications))"

text \<open>
  The result objects: \<open>{success: true, medications, count}\<close> and
  \<open>{success: false, message}\<close>.
\<close>

datatype currentMedications =
    CurrentOk "medicationRecord list" nat
  | CurrentFailed jsstring

definition currentFailedMessage :: jsstring where
  "currentFailedMessage =
     [0x62D, 0x62F, 0x62B, 0x20, 0x62E, 0x637, 0x623, 0x20, 0x623, 0x62B, 0x646, 0x627, 0x621,
      0x20, 0x62C, 0x644, 0x628, 0x20, 0x627, 0x644, 0x623, 0x62F, 0x648, 0x64A, 0x629, 0x20,
      0x627, 0x644, 0x62D, 0x627, 0x644, 0x64A, 0x629]"

text \<open>
  \<open>getCurrentMedications\<close>.  The query of the visit store (completed visits of the
  patient with prescriptions, newest first) is outside the program: its outcome
  \<open>q\<close> is an input, \<open>None\<close> when the query throws, which the \<open>catch\<close> turns
  into the failure result.
\<close>

definition getCurrentMedications :: "host \<Rightarrow> int \<Rightarrow> visit list option \<Rightarrow> currentMedications" where
  "getCurrentMedications h now q =
     (case q of
        None \<Rightarrow> CurrentFailed currentFailedMessage
      | Some visits \<Rightarrow>
          if length visits = 0 then CurrentOk [] 0
          else
            let allMedications = forEachVisit visits [];
                activeMedications = filterActiveMedications h now allMedications
            in CurrentOk activeMedications (length activeMedications))"

subsection \<open>The medication history\<close>

definition withVisitActive :: "visit \<Rightarrow> prescription \<Rightarrow> bool \<Rightarrow> historyRecord" where
  "withVisitActive v med a =
     \<lparr> medicationName = medicationName med, dosage = dosage med,
       duration = duration med, notes_text = notes_text med,
       visitId = v_id v, visitDate = v_visitDate v,
       doctorName = doctorNameOf v,
       doctorSpecialization = doctorSpecializationOf v,
       isActive = a \<rparr>"

text \<open>\<open>medicationName && !med.medicationName.includes(medicationName)\<close>\<close>

definition skippedByName :: "jsstring option \<Rightarrow> prescription \<Rightarrow> bool" where
  "skippedByName nameFilter med =
     (case nameFilter of None \<Rightarrow> False
      | Some n \<Rightarrow> n \<noteq> [] \<and> \<not> includes_str (medicationName med) n)"

text \<open>
  The loops of \<open>getMedicationHistory\<close>.  Every call of \<open>isMedicationActive\<close> reads
  the clock anew: \<open>clock k\<close> is the reading of the call made when \<open>k\<close> records
  have been pushed.
\<close>

fun pushHistory ::
  "host \<Rightarrow> (nat \<Rightarrow> int) \<Rightarrow> jsstring option \<Rightarrow> visit \<Rightarrow> prescription list
     \<Rightarrow> historyRecord list \<Rightarrow> historyRecord list" where
  "pushHistory h clock nameFilter v [] medicationHistory = medicationHistory"
| "pushHistory h clock nameFilter v (med # meds) medicationHistory =
     (if skippedByName nameFilter med
      then pushHistory h clock nameFilter v meds medicationHistory
      else pushHistory h clock nameFilter v meds
             (medicationHistory @
                [withVisitActive v med
                   (isMedicationActive h (clock (length medicationHistory)) med (v_visitDate v))]))"

fun forEachHistoryVisit ::
  "host \<Rightarrow> (nat \<Rightarrow> int) \<Rightarrow> jsstring option \<Rightarrow> visit list
     \<Rightarrow> historyRecord list \<Rightarrow> historyRecord list" where
  "forEachHistoryVisit h clock nameFilter [] medicationHistory = medicationHistory"
| "forEachHistoryVisit h clock nameFilter (v # vs) medicationHistory =
     (case v_prescribedMedications v of
        None \<Rightarrow> forEachHistoryVisit h clock nameFilter vs medicationHistory
      | Some meds \<Rightarrow>
          forEachHistoryVisit h clock nameFilter vs
            (pushHistory h clock nameFilter v meds medicationHistory))"

record historyStatistics =
  totalPrescriptions :: nat
  uniqueMedications :: nat
  activeMedications :: nat

datatype medicationHistory =
    HistoryOk "historyRecord list" historyStatistics
  | HistoryFailed jsstring

definition historyFailedMessage :: jsstring where
  "historyFailedMessage =
     [0x62D, 0x62F, 0x62B, 0x20, 0x62E, 0x637, 0x623, 0x20, 0x623, 0x62B, 0x646, 0x627,
      0x621, 0x20, 0x62C, 0x644, 0x628, 0x20, 0x62A, 0x627, 0x631, 0x64A, 0x62E, 0x20,
      0x627, 0x644, 0x623, 0x62F, 0x648, 0x64A, 0x629]"

text \<open>
  \<open>getMedicationHistory\<close>.  The date range, \<open>page\<close> and \<open>limit\<close> of the filters go
  into the query, whose outcome \<open>q\<close> is an input as above; the \<open>pagination\<close>
  object of the result only echoes them and the store's count, and is left out.
\<close>

definition getMedicationHistory ::
  "host \<Rightarrow> (nat \<Rightarrow> int) \<Rightarrow> jsstring option \<Rightarrow> visit list option \<Rightarrow> medicationHistory" where
  "getMedicationHistory h clock nameFilter q =
     (case q of
        None \<Rightarrow> HistoryFailed historyFailedMessage
      | Some visits \<Rightarrow>
          let medicationHistory = forEachHistoryVisit h clock nameFilter visits [];
              uniqueNames = remdups (map medicationName medicationHistory)
          in HistoryOk medicationHistory
               \<lparr> totalPrescriptions = length medicationHistory,
                 uniqueMedications = length uniqueNames,
                 activeMedications = length (filter isActive medicationHistory) \<rparr>)"

subsection \<open>The interaction check\<close>

datatype severity = low | medium | high

text \<open>
  \<open>{type: 'DUPLICATE', severity, message, medications}\<close> and
  \<open>{type: 'POLYPHARMACY', severity, message, count}\<close>.
\<close>

datatype warning =
    DUPLICATE severity jsstring "jsstring list"
  | POLYPHARMACY severity jsstring nat

text \<open>\<open>{success: true, interactions, warnings, medicationCount}\<close> (the count may be absent) and \<open>{success: false, message}\<close>.\<close>

datatype interactionCheck =
    CheckOk "unit list" "warning list" "nat option"
  | CheckFailed jsstring

text \<open>\<open>xs.indexOf(x)\<close>: the first index of \<open>x\<close>, or -1.\<close>

fun indexOfFrom :: "'a list \<Rightarrow> 'a \<Rightarrow> nat \<Rightarrow> int" where
  "indexOfFrom [] x i = - 1"
| "indexOfFrom (y # ys) x i = (if y = x then int i else indexOfFrom ys x (Suc i))"

definition indexOf :: "'a list \<Rightarrow> 'a \<Rightarrow> int" where
  "indexOf xs x = indexOfFrom xs x 0"

text \<open>\<open>names.filter((name, index) => names.indexOf(name) !== index)\<close>\<close>

definition duplicatesOf :: "'a list \<Rightarrow> 'a list" where
  "duplicatesOf names =
     map snd (filter (\<lambda>(index, name). indexOf names name \<noteq> int index) (enumerate 0 names))"

definition duplicateMessage :: jsstring where
  "duplicateMessage =
     [0x62A, 0x645, 0x20, 0x648, 0x635, 0x641, 0x20, 0x646, 0x641, 0x633, 0x20, 0x627,
      0x644, 0x62F, 0x648, 0x627, 0x621, 0x20, 0x645, 0x646, 0x20, 0x642, 0x628, 0x644,
      0x20, 0x623, 0x643, 0x62B, 0x631, 0x20, 0x645, 0x646, 0x20, 0x637, 0x628, 0x64A,
      0x628]"

definition polypharmacyMessage :: "nat \<Rightarrow> jsstring" where
  "polypharmacyMessage n =
     [0x62A, 0x62A, 0x646, 0x627, 0x648, 0x644, 0x20] @ showNat n @
     [0x20, 0x623, 0x62F, 0x648, 0x64A, 0x629, 0x20, 0x62D, 0x627, 0x644, 0x64A, 0x627,
      0x64B, 0x2E, 0x20, 0x64A, 0x64F, 0x646, 0x635, 0x62D, 0x20, 0x628, 0x645, 0x631,
      0x627, 0x62C, 0x639, 0x629, 0x20, 0x627, 0x644, 0x637, 0x628, 0x64A, 0x628, 0x20,
      0x644, 0x645, 0x631, 0x627, 0x62C, 0x639, 0x629, 0x20, 0x627, 0x644, 0x623, 0x62F,
      0x648, 0x64A, 0x629]"

text \<open>
  \<open>checkMedicationInteractions\<close>.  Its own \<open>catch\<close> (the constructor
  \<open>CheckFailed\<close>) is reached by no record whose name is a string.
\<close>

definition checkMedicationInteractions :: "host \<Rightarrow> int \<Rightarrow> visit list option \<Rightarrow> interactionCheck" where
  "checkMedicationInteractions h now q =
     (case getCurrentMedications h now q of
        CurrentFailed m \<Rightarrow> CheckOk [] [] None
      | CurrentOk medications n \<Rightarrow>
          if length medications = 0 then CheckOk [] [] None
          else
            let medicationNames = map (\<lambda>m. toLowerCase h (medicationName m)) medications;
                duplicates = duplicatesOf medicationNames;
                warnings1 =
                  (if length duplicates > 0
                   then [DUPLICATE medium duplicateMessage duplicates] else []);
                warnings2 =
                  (if length medications \<ge> 5
                   then warnings1 @
                        [POLYPHARMACY low (polypharmacyMessage (length medications))
                           (length medications)]
                   else warnings1)
            in CheckOk [] warnings2 (Some (length medications)))"

section \<open>The upload manager\<close>

text \<open>
  \<open>now.toISOString()\<close>: the UTC fields of a valid time value as
  \<open>YYYY-MM-DDTHH:mm:ss.sssZ\<close>, the year with a sign and six digits outside
  0 to 9999.
\<close>

definition pad :: "nat \<Rightarrow> int \<Rightarrow> jsstring" where
  "pad w n = padStart0 w (showNat (nat n))"

definition HourFromTime :: "int \<Rightarrow> int" where
  "HourFromTime t = TimeWithinDay t div 3600000"

definition MinFromTime :: "int \<Rightarrow> int" where
  "MinFromTime t = (TimeWithinDay t div 60000) mod 60"

definition SecFromTime :: "int \<Rightarrow> int" where
  "SecFromTime t = (TimeWithinDay t div 1000) mod 60"

definition msFromTime :: "int \<Rightarrow> int" where
  "msFromTime t = TimeWithinDay t mod 1000"

definition isoYear :: "int \<Rightarrow> jsstring" where
  "isoYear y =
     (if 0 \<le> y \<and> y \<le> 9999 then pad 4 y
      else (if y < 0 then 45 else 43) # pad 6 \<bar>y\<bar>)"

definition toISOString :: "int \<Rightarrow> jsstring" where
  "toISOString t =
     isoYear (YearFromTime t) @ ascii ''-'' @ pad 2 (MonthFromTime t + 1) @ ascii ''-''
     @ pad 2 (DateFromTime t) @ ascii ''T'' @ pad 2 (HourFromTime t) @ ascii '':''
     @ pad 2 (MinFromTime t) @ ascii '':'' @ pad 2 (SecFromTime t) @ ascii ''.''
     @ pad 3 (msFromTime t) @ ascii ''Z''"

text \<open>\<open>.replace(/[:.]/g, '-')\<close>, \<open>.split('.')[0]\<close>, \<open>.substring(a, b)\<close> and \<open>.replace(/\\/g, '/')\<close>.\<close>

definition replaceColonDot :: "jsstring \<Rightarrow> jsstring" where
  "replaceColonDot s = map (\<lambda>c. if c = 58 \<or> c = 46 then 45 else c) s"

definition beforeFirstDot :: "jsstring \<Rightarrow> jsstring" where
  "beforeFirstDot s = takeWhile (\<lambda>c. c \<noteq> 46) s"

definition substring :: "nat \<Rightarrow> nat \<Rightarrow> jsstring \<Rightarrow> jsstring" where
  "substring a b s = take (b - a) (drop a s)"

definition replaceBackslashes :: "jsstring \<Rightarrow> jsstring" where
  "replaceBackslashes s = map (\<lambda>c. if c = 92 then 47 else c) s"

subsection \<open>The path module\<close>

text \<open>
  \<open>path.join\<close> and \<open>path.extname\<close> of Node.js (\<open>lib/path.js\<close>) are those of
  \<open>path.posix\<close> or of \<open>path.win32\<close>, with the platform of the host.  On POSIX
  the separator is the slash; on Windows the slash and the backslash both
  separate, and the backslash is written.
\<close>

definition isPosixPathSeparator :: "nat \<Rightarrow> bool" where
  "isPosixPathSeparator c = (c = 47)"

definition isPathSeparator :: "nat \<Rightarrow> bool" where
  "isPathSeparator c = (c = 47 \<or> c = 92)"

definition isWindowsDeviceRoot :: "nat \<Rightarrow> bool" where
  "isWindowsDeviceRoot c = ((65 \<le> c \<and> c \<le> 90) \<or> (97 \<le> c \<and> c \<le> 122))"

text \<open>The segments of a path between its separators, and segments joined with a separator.\<close>

fun splitSep :: "(nat \<Rightarrow> bool) \<Rightarrow> jsstring \<Rightarrow> jsstring list" where
  "splitSep isSep [] = [[]]"
| "splitSep isSep (c # cs) =
     (if isSep c then [] # splitSep isSep cs
      else (case splitSep isSep cs of [] \<Rightarrow> [[c]] | s # ss \<Rightarrow> (c # s) # ss))"

fun joinWith :: "nat \<Rightarrow> jsstring list \<Rightarrow> jsstring" where
  "joinWith sep [] = []"
| "joinWith sep [s] = s"
| "joinWith sep (s # t # ss) = s @ sep # joinWith sep (t # ss)"

text \<open>
  \<open>normalizeString\<close>: the segments left to right; an empty segment and \<open>.\<close>
  are dropped, \<open>..\<close> removes the segment before it, or stays when there is
  none to remove and the path may rise above its start.
\<close>

fun normalizeSegments :: "bool \<Rightarrow> jsstring list \<Rightarrow> jsstring list \<Rightarrow> jsstring list" where
  "normalizeSegments allowAboveRoot res [] = res"
| "normalizeSegments allowAboveRoot res (seg # segs) =
     (if seg = [] \<or> seg = [46] then normalizeSegments allowAboveRoot res segs
      else if seg = [46, 46] then
        (if res \<noteq> [] \<and> last res \<noteq> [46, 46]
         then normalizeSegments allowAboveRoot (butlast res) segs
         else if allowAboveRoot then normalizeSegments allowAboveRoot (res @ [seg]) segs
         else normalizeSegments allowAboveRoot res segs)
      else normalizeSegments allowAboveRoot (res @ [seg]) segs)"

definition normalizeString :: "jsstring \<Rightarrow> bool \<Rightarrow> nat \<Rightarrow> (nat \<Rightarrow> bool) \<Rightarrow> jsstring" where
  "normalizeString p allowAboveRoot separator isSep =
     joinWith separator (normalizeSegments allowAboveRoot [] (splitSep isSep p))"

text \<open>
  The extension is taken in the last portion of the path, from its last dot on;
  there is none when the portion has no dot, when its last dot is its first
  character, and when the portion is \<open>..\<close>.
\<close>

definition basenamePart :: "(nat \<Rightarrow> bool) \<Rightarrow> jsstring \<Rightarrow> jsstring" where
  "basenamePart isSep p = rev (takeWhile (\<lambda>c. \<not> isSep c) (dropWhile isSep (rev p)))"

definition extnameOf :: "(nat \<Rightarrow> bool) \<Rightarrow> jsstring \<Rightarrow> jsstring" where
  "extnameOf isSep p =
     (let b = basenamePart isSep p;
          e = rev (takeWhile (\<lambda>c. c \<noteq> 46) (rev b))
      in if 46 \<notin> set b then []
         else if length e + 1 = length b then []
         else if b = [46, 46] then []
         else 46 # e)"

paragraph \<open>path.posix\<close>

definition posixNormalize :: "jsstring \<Rightarrow> jsstring" where
  "posixNormalize p =
     (if p = [] then [46]
      else
        let isAbsolute = (hd p = 47);
            trailingSeparator = (last p = 47);
            n = normalizeString p (\<not> isAbsolute) 47 isPosixPathSeparator
        in if n = [] then (if isAbsolute then [47] else if trailingSeparator then [46, 47] else [46])
           else (if isAbsolute then [47] else []) @ n @ (if trailingSeparator then [47] else []))"

definition posixJoin :: "jsstring list \<Rightarrow> jsstring" where
  "posixJoin args =
     (let joined = joinWith 47 (filter (\<lambda>a. a \<noteq> []) args)
      in if joined = [] then [46] else posixNormalize joined)"

definition posixExtname :: "jsstring \<Rightarrow> jsstring" where
  "posixExtname p = extnameOf isPosixPathSeparator p"

paragraph \<open>path.win32\<close>

text \<open>
  The root of a Windows path of two characters or more: a UNC root
  \<open>\\server\share\<close>, a single leading separator, or a drive \<open>C:\<close> with or
  without a separator after it.  \<open>Root device rootEnd isAbsolute\<close> holds what
  \<open>normalize\<close> keeps of it; a path that is a UNC root and nothing more is
  returned at once (\<open>UncOnly\<close>).
\<close>

datatype win32Root = Root "jsstring option" nat bool | UncOnly jsstring

definition win32RootOf :: "jsstring \<Rightarrow> win32Root" where
  "win32RootOf p =
     (case p of
        c # d # rest \<Rightarrow>
          if isPathSeparator c then
            (if isPathSeparator d then
               (let firstPart = takeWhile (\<lambda>x. \<not> isPathSeparator x) rest;
                    j = 2 + length firstPart;
                    k = j + length (takeWhile isPathSeparator (drop j p));
                    share = takeWhile (\<lambda>x. \<not> isPathSeparator x) (drop k p);
                    m = k + length share
                in if j < length p \<and> j \<noteq> 2 \<and> k < length p \<and> k \<noteq> j then
                     (if m = length p then UncOnly ([92, 92] @ firstPart @ [92] @ drop k p @ [92])
                      else if m \<noteq> k then Root (Some ([92, 92] @ firstPart @ [92] @ share)) m True
                      else Root None 0 True)
                   else Root None 0 True)
             else Root None 1 True)
          else if isWindowsDeviceRoot c \<and> d = 58 then
            (if rest \<noteq> [] \<and> isPathSeparator (hd rest) then Root (Some [c, d]) 3 True
             else Root (Some [c, d]) 2 False)
          else Root None 0 False
      | _ \<Rightarrow> Root None 0 False)"

text \<open>
  The guard of the current releases on a relative path that holds a colon: the
  result gets \<open>.\\<close> in front when it starts like a drive, or when a colon of
  the path stands at its end or before a separator.  Earlier releases have no
  such guard; the two agree on every path without a colon.
\<close>

definition driveLike :: "jsstring \<Rightarrow> bool" where
  "driveLike t = (case t of a # b # r \<Rightarrow> isWindowsDeviceRoot a \<and> b = 58 | _ \<Rightarrow> False)"

fun colonBeforeSeparator :: "jsstring \<Rightarrow> bool" where
  "colonBeforeSeparator [] = False"
| "colonBeforeSeparator [c] = (c = 58)"
| "colonBeforeSeparator (c # d # r) =
     ((c = 58 \<and> isPathSeparator d) \<or> colonBeforeSeparator (d # r))"

definition win32Normalize :: "jsstring \<Rightarrow> jsstring" where
  "win32Normalize p =
     (if p = [] then [46]
      else if length p = 1 then (if isPosixPathSeparator (hd p) then [92] else p)
      else
        (case win32RootOf p of
           UncOnly r \<Rightarrow> r
         | Root device rootEnd isAbsolute \<Rightarrow>
             let tail0 = (if rootEnd < length p
                          then normalizeString (drop rootEnd p) (\<not> isAbsolute) 92 isPathSeparator
                          else []);
                 tail1 = (if tail0 = [] \<and> \<not> isAbsolute then [46] else tail0);
                 tail = (if tail1 \<noteq> [] \<and> isPathSeparator (last p) then tail1 @ [92] else tail1)
             in if \<not> isAbsolute \<and> device = None \<and> 58 \<in> set p
                   \<and> (driveLike tail \<or> colonBeforeSeparator p)
                then [46, 92] @ tail
                else (case device of
                        None \<Rightarrow> (if isAbsolute then 92 # tail else tail)
                      | Some dv \<Rightarrow> (if isAbsolute then dv @ 92 # tail else dv @ tail))))"

text \<open>
  \<open>join\<close> joins the arguments that are not empty with backslashes.  Unless the
  first of them starts like a UNC path (two separators and a third character
  that is none), two or more separators at the start of the result become one,
  so that \<open>normalize\<close> does not take them for a UNC root.
\<close>

definition win32Join :: "jsstring list \<Rightarrow> jsstring" where
  "win32Join args =
     (let parts = filter (\<lambda>a. a \<noteq> []) args;
          joined = joinWith 92 parts
      in if parts = [] then [46]
         else
           let firstPart = hd parts;
               unc = (case firstPart of
                        a # b # c # r \<Rightarrow> isPathSeparator a \<and> isPathSeparator b \<and> \<not> isPathSeparator c
                      | _ \<Rightarrow> False);
               slashCount = length (takeWhile isPathSeparator joined)
           in win32Normalize
                (if \<not> unc \<and> slashCount \<ge> 2 then 92 # drop slashCount joined else joined))"

text \<open>\<open>extname\<close> leaves a drive prefix aside.\<close>

definition win32Extname :: "jsstring \<Rightarrow> jsstring" where
  "win32Extname p =
     (case p of
        c # d # rest \<Rightarrow>
          if d = 58 \<and> isWindowsDeviceRoot c then extnameOf isPathSeparator rest
          else extnameOf isPathSeparator p
      | _ \<Rightarrow> extnameOf isPathSeparator p)"

paragraph \<open>The module of the host\<close>

definition pathJoin :: "host \<Rightarrow> jsstring list \<Rightarrow> jsstring" where
  "pathJoin h args = (case platform h of Posix \<Rightarrow> posixJoin args | Win32 \<Rightarrow> win32Join args)"

definition extname :: "host \<Rightarrow> jsstring \<Rightarrow> jsstring" where
  "extname h p = (case platform h of Posix \<Rightarrow> posixExtname p | Win32 \<Rightarrow> win32Extname p)"

subsection \<open>generateFilePath\<close>

record filePath =
  fullPath :: jsstring
  relativePath :: jsstring
  filename :: jsstring
  directory :: jsstring

text \<open>
  \<open>FileUploadManager.generateFilePath\<close>.  Beside its three arguments it reads
  the clock (\<open>now\<close>) and \<open>Math.random()\<close>; \<open>random36\<close> is the rendering
  \<open>Math.random().toString(36)\<close> of the number drawn, such as \<open>0.4fzyo82mvyr\<close>.
\<close>

definition generateFilePath ::
  "host \<Rightarrow> int \<Rightarrow> jsstring \<Rightarrow> jsstring \<Rightarrow> jsstring \<Rightarrow> jsstring \<Rightarrow> filePath" where
  "generateFilePath h now random36 uploadType patientId originalFilename =
     (let year = YearFromTime (LocalTime h now);
          month = pad 2 (MonthFromTime (LocalTime h now) + 1);
          timestamp = beforeFirstDot (replaceColonDot (toISOString now));
          randomSuffix = substring 2 10 random36;
          ext = extname h originalFilename;
          fname = uploadType @ ascii ''_'' @ timestamp @ ascii ''_'' @ randomSuffix @ ext;
          dir = pathJoin h [ascii ''uploads'', uploadType @ ascii ''s'', showInt year, month,
                  ascii ''patient_'' @ patientId];
          full = pathJoin h [dir, fname]
      in \<lparr> fullPath = full, relativePath = replaceBackslashes full,
           filename = fname, directory = dir \<rparr>)"

section \<open>The duration grammar of the specification\<close>

text \<open>
  The specification describes the duration text through a parser with five
  outcomes, tried in this order: a continuous keyword anywhere in the text, the
  days pattern, the weeks pattern, the months pattern, and else unknown (also
  for an empty or missing text).  The source has no such function; this one
  follows the specification's words over the patterns of the source.
\<close>

datatype durationSpec = Continuous | Days int | Weeks int | Months int | Unknown

definition spec_hasContinuousKeyword :: "host \<Rightarrow> jsstring \<Rightarrow> bool" where
  "spec_hasContinuousKeyword h s =
     (includes_str s kw_mustamirr
      \<or> includes_str (toLowerCase h s) (ascii ''continuous'')
      \<or> includes_str (toLowerCase h s) (ascii ''ongoing''))"

definition spec_parseDuration :: "host \<Rightarrow> jsstring option \<Rightarrow> durationSpec" where
  "spec_parseDuration h d =
     (case d of None \<Rightarrow> Unknown
      | Some s \<Rightarrow>
          if spec_hasContinuousKeyword h s then Continuous
          else
         (case matchNumberUnit dayUnits s of Some ds \<Rightarrow> Days (parseInt ds)
          | None \<Rightarrow>
         (case matchNumberUnit weekUnits s of Some ds \<Rightarrow> Weeks (parseInt ds)
          | None \<Rightarrow>
         (case matchNumberUnit monthUnits s of Some ds \<Rightarrow> Months (parseInt ds)
          | None \<Rightarrow> Unknown))))"

text \<open>
  A keyword in any letter case: \<open>w\<close>, written in lower-case ASCII letters,
  occurs in \<open>s\<close> once the letters \<open>A\<close>..\<open>Z\<close> of \<open>s\<close> are folded.
\<close>

definition asciiLower :: "nat \<Rightarrow> nat" where
  "asciiLower c = (if 65 \<le> c \<and> c \<le> 90 then c + 32 else c)"

definition containsAnyCase :: "jsstring \<Rightarrow> jsstring \<Rightarrow> bool" where
  "containsAnyCase s w = includes_str (map asciiLower s) w"

section \<open>Reading the results\<close>

text \<open>The records a visit contributes, in the order of its prescriptions.\<close>

definition visitRecords :: "visit \<Rightarrow> medicationRecord list" where
  "visitRecords v =
     (case v_prescribedMedications v of None \<Rightarrow> [] | Some meds \<Rightarrow> map (withVisit v) meds)"

definition visitPrescriptions :: "visit \<Rightarrow> prescription list" where
  "visitPrescriptions v = (case v_prescribedMedications v of None \<Rightarrow> [] | Some meds \<Rightarrow> meds)"

text \<open>
  The order of the query (\<open>sort({visitDate: -1})\<close>): \<open>notOlder a b\<close> when the
  date \<open>a\<close> may stand before \<open>b\<close>; a missing date sorts last.
\<close>

definition notOlder :: "date \<Rightarrow> date \<Rightarrow> bool" where
  "notOlder a b =
     (case b of None \<Rightarrow> True
      | Some y \<Rightarrow> (case a of None \<Rightarrow> False | Some x \<Rightarrow> y \<le> x))"

text \<open>The list of medications in a result, and the warnings in a check.\<close>

definition activeMedicationsOf :: "currentMedications \<Rightarrow> medicationRecord list" where
  "activeMedicationsOf r = (case r of CurrentOk ms n \<Rightarrow> ms | CurrentFailed m \<Rightarrow> [])"

definition warningsOf :: "interactionCheck \<Rightarrow> warning list" where
  "warningsOf r = (case r of CheckOk is ws n \<Rightarrow> ws | CheckFailed m \<Rightarrow> [])"

fun isDuplicateWarning :: "warning \<Rightarrow> bool" where
  "isDuplicateWarning (DUPLICATE s m ns) = True"
| "isDuplicateWarning (POLYPHARMACY s m n) = False"

fun isPolypharmacyWarning :: "warning \<Rightarrow> bool" where
  "isPolypharmacyWarning (DUPLICATE s m ns) = False"
| "isPolypharmacyWarning (POLYPHARMACY s m n) = True"

text \<open>
  The instant at which the host's clock shows, \<open>n\<close> calendar days later, the
  local time it showed at \<open>p\<close>.
\<close>

definition sameLocalTimeAfterDays :: "host \<Rightarrow> int \<Rightarrow> int \<Rightarrow> int" where
  "sameLocalTimeAfterDays h p n = UTC h (LocalTime h p + n * msPerDay)"

subsection \<open>Path segments\<close>

text \<open>
  The characters that separate on the host, and the separator its \<open>path.join\<close>
  writes: the slash on POSIX; on Windows the slash and the backslash separate,
  and the backslash is written.
\<close>

definition isSeparatorOn :: "host \<Rightarrow> nat \<Rightarrow> bool" where
  "isSeparatorOn h c =
     (case platform h of Posix \<Rightarrow> isPosixPathSeparator c | Win32 \<Rightarrow> isPathSeparator c)"

definition separatorOf :: "host \<Rightarrow> nat" where
  "separatorOf h = (case platform h of Posix \<Rightarrow> 47 | Win32 \<Rightarrow> 92)"

text \<open>
  A string is separator free on a host when it holds no separator of the host
  and, on Windows, no colon (there a colon can make a drive of what stands
  before it).
\<close>

definition separatorFree :: "host \<Rightarrow> jsstring \<Rightarrow> bool" where
  "separatorFree h s =
     (\<forall>c \<in> set s. \<not> isSeparatorOn h c \<and> (platform h = Win32 \<longrightarrow> c \<noteq> 58))"

text \<open>
  A plain segment is one that \<open>normalize\<close> leaves as it is: not empty, without
  separator, and neither \<open>.\<close> nor \<open>..\<close>.
\<close>

definition plainSegment :: "(nat \<Rightarrow> bool) \<Rightarrow> jsstring \<Rightarrow> bool" where
  "plainSegment isSep s = (s \<noteq> [] \<and> (\<forall>c \<in> set s. \<not> isSep c) \<and> s \<noteq> [46] \<and> s \<noteq> [46, 46])"

definition plainOn :: "host \<Rightarrow> jsstring \<Rightarrow> bool" where
  "plainOn h s = (s \<noteq> [] \<and> s \<noteq> [46] \<and> s \<noteq> [46, 46] \<and> separatorFree h s)"

section \<open>Sample inputs\<close>

text \<open>
  A POSIX host on UTC whose case table leaves the code units outside ASCII as
  they are, and the same host on Windows.
\<close>

definition utcHost :: host where
  "utcHost =
     \<lparr> tzaUTC = (\<lambda>t. 0), tzaLocal = (\<lambda>t. 0), lowerTable = (\<lambda>c. [c]), platform = Posix \<rparr>"

definition windowsHost :: host where
  "windowsHost =
     \<lparr> tzaUTC = (\<lambda>t. 0), tzaLocal = (\<lambda>t. 0), lowerTable = (\<lambda>c. [c]), platform = Win32 \<rparr>"


text \<open>A record prescribed at \<open>t\<close> with the duration text \<open>d\<close>.\<close>

definition sampleRecord :: "jsstring option \<Rightarrow> int \<Rightarrow> medicationRecord" where
  "sampleRecord d t =
     \<lparr> medicationName = ascii ''Aspirin'', dosage = Some (ascii ''100 mg''),
       duration = d, notes_text = None,
       visitId = 1, visitDate = Some t,
       doctorName = unspecifiedDoctor, doctorSpecialization = None \<rparr>"

text \<open>2024-01-31T00:00:00Z.\<close>

definition jan31 :: int where
  "jan31 = 1706659200000"

text \<open>Prescriptions and visits with the fields the claims do not mention left empty.\<close>

definition samplePrescription :: "string \<Rightarrow> jsstring option \<Rightarrow> prescription" where
  "samplePrescription name d =
     \<lparr> medicationName = ascii name, dosage = None, duration = d, notes_text = None \<rparr>"

definition sampleVisit :: "nat \<Rightarrow> int \<Rightarrow> prescription list \<Rightarrow> visit" where
  "sampleVisit i t meds =
     \<lparr> v_id = i, v_visitDate = Some t, v_doctorId = None, v_prescribedMedications = Some meds \<rparr>"

text \<open>One visit on 2024-01-31 prescribing the given names, each as \<open>continuous\<close>.\<close>

definition continuousNamed :: "string list \<Rightarrow> visit list" where
  "continuousNamed names =
     [sampleVisit 1 jan31 (map (\<lambda>n. samplePrescription n (Some (ascii ''continuous''))) names)]"

text \<open>Two visits, the newer first, with two prescriptions each.\<close>

definition twoVisits :: "visit list" where
  "twoVisits =
     [sampleVisit 2 (jan31 + 10 * msPerDay)
        [samplePrescription ''Amoxicillin'' (Some (ascii ''7 days'')),
         samplePrescription ''Metformin'' (Some (ascii ''continuous''))],
      sampleVisit 1 jan31
        [samplePrescription ''Ibuprofen'' (Some (ascii ''5 days'')),
         samplePrescription ''Aspirin'' None]]"


text \<open>3 followed by the plural and by the singular of the Arabic word for week.\<close>

definition threeWeeksPlural :: jsstring where
  "threeWeeksPlural = [51, 32, 0x623, 0x633, 0x627, 0x628, 0x64A, 0x639]"

definition threeWeeksSingular :: jsstring where
  "threeWeeksSingular = [51, 32, 0x623, 0x633, 0x628, 0x648, 0x639]"

text \<open>2024-03-15T00:00:00Z and 2024-03-31T00:00:00Z.\<close>

definition mar15 :: int where
  "mar15 = 1710460800000"

definition mar31 :: int where
  "mar31 = 1711843200000"

text \<open>A rendering of \<open>Math.random()\<close> in base 36.\<close>

definition sampleRandom36 :: jsstring where
  "sampleRandom36 = ascii ''0.4fzyo82mvyr''"

section \<open>The calendar and the filter against the specification\<close>

text \<open>The year search returns the year ECMAScript defines: the last one that starts on or before the day.\<close>

lemma yearDown_le: "DayFromYear (yearDown d y) \<le> d"
proof (induction d y rule: yearDown.induct)
  case (1 d y)
  show ?case
  proof (cases "d < DayFromYear y")
    case True
    then show ?thesis using "1.IH" by (simp add: yearDown.simps [of d y])
  next
    case False
    then show ?thesis by (simp add: yearDown.simps [of d y])
  qed
qed

lemma yearUp_bounds:
  "DayFromYear y \<le> d \<Longrightarrow> DayFromYear (yearUp d y) \<le> d \<and> d < DayFromYear (yearUp d y + 1)"
proof (induction d y rule: yearUp.induct)
  case (1 d y)
  show ?case
  proof (cases "DayFromYear (y + 1) \<le> d")
    case True
    then show ?thesis using "1.IH" by (simp add: yearUp.simps [of d y])
  next
    case False
    then show ?thesis using "1.prems" by (simp add: yearUp.simps [of d y])
  qed
qed

lemma YearFromTime_bounds:
  "DayFromYear (YearFromTime t) \<le> Day t \<and> Day t < DayFromYear (YearFromTime t + 1)"
  unfolding YearFromTime_def by (rule yearUp_bounds) (rule yearDown_le)

text \<open>
  The filter of \<open>getCurrentMedications\<close> is the specification's activity
  evaluation over the specification's parser, with the window of 90 days.
\<close>

lemma filterCallback_refines:
  "filterCallback h now med =
     (case spec_parseDuration h (duration med) of
        Continuous \<Rightarrow> True
      | Days n \<Rightarrow> dateLe now (addDays h (visitDate med) n)
      | Weeks n \<Rightarrow> dateLe now (addDays h (visitDate med) (n * 7))
      | Months n \<Rightarrow> dateLe now (addMonths h (visitDate med) n)
      | Unknown \<Rightarrow> withinDays now (visitDate med) 90)"
proof (cases "duration med")
  case None
  then show ?thesis
    by (simp add: filterCallback_def continuousInFilter_def optMatch_def spec_parseDuration_def)
next
  case (Some s)
  show ?thesis
  proof (cases "s = []")
    case True
    then show ?thesis
      using Some by (simp add: filterCallback_def continuousInFilter_def optMatch_def
          spec_parseDuration_def spec_hasContinuousKeyword_def kw_mustamirr_def toLowerCase_def ascii_def)
  next
    case False
    then show ?thesis
      using Some by (simp add: filterCallback_def continuousInFilter_def optMatch_def
          spec_parseDuration_def spec_hasContinuousKeyword_def split: option.splits)
  qed
qed

section \<open>Unknown durations\<close>

lemma spec_unknown_filter:
  assumes "spec_parseDuration h d = Unknown"
  shows "\<not> continuousInFilter h d" "optMatch dayUnits d = None"
    "optMatch weekUnits d = None" "optMatch monthUnits d = None"
  using assms
  by (auto simp: spec_parseDuration_def continuousInFilter_def spec_hasContinuousKeyword_def
      optMatch_def split: option.splits if_splits)

lemma continuousInHistory_imp_filter:
  "continuousInHistory h d \<Longrightarrow> continuousInFilter h d"
  by (auto simp: continuousInHistory_def continuousInFilter_def split: option.splits)

lemma withinDays_Some:
  "withinDays now (Some p) w = (real_of_int (now - p) / real_of_int msPerDay \<le> w)"
  by (simp add: withinDays_def msPerDay_def)

lemma filterCallback_unknown:
  assumes "spec_parseDuration h (duration med) = Unknown" and "visitDate med = Some p"
  shows "filterCallback h now med = (real_of_int (now - p) / real_of_int msPerDay \<le> 90)"
  using spec_unknown_filter [OF assms(1)] assms(2)
  by (simp add: filterCallback_def withinDays_Some)

lemma isMedicationActive_unknown:
  assumes "spec_parseDuration h (duration med) = Unknown"
  shows "isMedicationActive h now med (Some p)
           = (real_of_int (now - p) / real_of_int msPerDay \<le> 30)"
proof -
  note u = spec_unknown_filter [OF assms]
  have "\<not> continuousInHistory h (duration med)"
    using u(1) continuousInHistory_imp_filter by blast
  then show ?thesis
    by (simp add: isMedicationActive_def u(2) withinDays_Some)
qed

text \<open>
  C4.  A duration text that is missing, empty or matches none of the patterns
  (the specification's parser gives \<open>Unknown\<close>) makes the record active exactly
  when the days elapsed since the visit are at most the fallback window: 90 days
  in the filter of \<open>getCurrentMedications\<close>, 30 days in \<open>isMedicationActive\<close>,
  which stamps the history.  So the record is active 89 days after the visit and
  not 91 days after it in the first, active 29 days after and not 31 days after
  in the second.
\<close>

theorem unknown_duration_fallback:
  fixes med :: medicationRecord
  assumes "spec_parseDuration h (duration med) = Unknown"
    and "visitDate med = Some p"
  shows "filterCallback h now med = (real_of_int (now - p) / real_of_int msPerDay \<le> 90)
       \<and> isMedicationActive h now med (visitDate med)
           = (real_of_int (now - p) / real_of_int msPerDay \<le> 30)
       \<and> filterCallback h (p + 89 * msPerDay) med
       \<and> \<not> filterCallback h (p + 91 * msPerDay) med
       \<and> isMedicationActive h (p + 29 * msPerDay) med (visitDate med)
       \<and> \<not> isMedicationActive h (p + 31 * msPerDay) med (visitDate med)"
proof -
  have f: "filterCallback h t med = (real_of_int (t - p) / real_of_int msPerDay \<le> 90)" for t
    by (rule filterCallback_unknown [OF assms])
  have i: "isMedicationActive h t med (visitDate med)
             = (real_of_int (t - p) / real_of_int msPerDay \<le> 30)" for t
    unfolding assms(2) by (rule isMedicationActive_unknown [OF assms(1)])
  have "filterCallback h (p + 89 * msPerDay) med"
    by (simp add: f msPerDay_def)
  moreover have "\<not> filterCallback h (p + 91 * msPerDay) med"
    by (simp add: f msPerDay_def)
  moreover have "isMedicationActive h (p + 29 * msPerDay) med (visitDate med)"
    by (simp add: i msPerDay_def)
  moreover have "\<not> isMedicationActive h (p + 31 * msPerDay) med (visitDate med)"
    by (simp add: i msPerDay_def)
  ultimately show ?thesis
    using f i by blast
qed

theorem unknown_duration_fallback_witness:
  "spec_parseDuration utcHost (duration (sampleRecord (Some (ascii ''as needed'')) jan31)) = Unknown
   \<and> spec_parseDuration utcHost (duration (sampleRecord None jan31)) = Unknown
   \<and> filterCallback utcHost (jan31 + 89 * msPerDay) (sampleRecord (Some (ascii ''as needed'')) jan31)
   \<and> \<not> filterCallback utcHost (jan31 + 91 * msPerDay) (sampleRecord (Some (ascii ''as needed'')) jan31)
   \<and> isMedicationActive utcHost (jan31 + 29 * msPerDay) (sampleRecord None jan31) (Some jan31)
   \<and> \<not> isMedicationActive utcHost (jan31 + 31 * msPerDay) (sampleRecord None jan31) (Some jan31)"
proof -
  have a: "spec_parseDuration utcHost (duration (sampleRecord (Some (ascii ''as needed'')) jan31)) = Unknown"
    by code_simp
  have b: "spec_parseDuration utcHost (duration (sampleRecord None jan31)) = Unknown"
    by code_simp
  have v: "visitDate (sampleRecord d jan31) = Some jan31" for d
    by (simp add: sampleRecord_def)
  have w1: "filterCallback utcHost (jan31 + 89 * msPerDay) (sampleRecord (Some (ascii ''as needed'')) jan31)
      \<and> \<not> filterCallback utcHost (jan31 + 91 * msPerDay) (sampleRecord (Some (ascii ''as needed'')) jan31)"
    using unknown_duration_fallback [OF a v, of 0] by blast
  have w2: "isMedicationActive utcHost (jan31 + 29 * msPerDay) (sampleRecord None jan31) (Some jan31)
      \<and> \<not> isMedicationActive utcHost (jan31 + 31 * msPerDay) (sampleRecord None jan31) (Some jan31)"
    using unknown_duration_fallback [OF b v, of 0, unfolded v] by blast
  show ?thesis
    using a b w1 w2 by blast
qed

section \<open>Durations in days\<close>

lemma MonthFromTime_range: "0 \<le> MonthFromTime t \<and> MonthFromTime t \<le> 11"
  by (simp add: MonthFromTime_def Let_def)

lemma MakeDay_in_year:
  assumes "0 \<le> m" "m \<le> 11"
  shows "MakeDay y m d = DayFromYear y + monthStart (DaysInYear y = 366) m + d - 1"
proof -
  have "m div 12 = 0" "m mod 12 = m" using assms by simp_all
  then show ?thesis by (simp add: MakeDay_def)
qed

lemma MakeDay_of_fields:
  "MakeDay (YearFromTime t) (MonthFromTime t) (DateFromTime t + n) = Day t + n"
  using MonthFromTime_range [of t]
  by (simp add: MakeDay_in_year DateFromTime_def DayWithinYear_def InLeapYear_def)

lemma MakeDate_Day: "MakeDate (Day t + n) (TimeWithinDay t) = t + n * msPerDay"
proof -
  have "t div msPerDay * msPerDay + t mod msPerDay = t" by simp
  then show ?thesis
    by (simp add: MakeDate_def Day_def TimeWithinDay_def algebra_simps)
qed

lemma addDays_eq:
  "addDays h (Some p) n = TimeClip (sameLocalTimeAfterDays h p n)"
  by (simp add: addDays_def setDate_def getDate_def Let_def MakeDay_of_fields MakeDate_Day
      sameLocalTimeAfterDays_def)








section \<open>Continuous durations\<close>

lemma startsWith_iff: "startsWith s p = (\<exists>suf. s = p @ suf)"
  by (induction s p rule: startsWith.induct) auto

lemma includes_str_iff: "includes_str s p = (\<exists>pre suf. s = pre @ p @ suf)"
proof (induction s)
  case Nil
  then show ?case by simp
next
  case (Cons c cs)
  show ?case
  proof
    assume "includes_str (c # cs) p"
    then consider "startsWith (c # cs) p" | "includes_str cs p" by auto
    then show "\<exists>pre suf. c # cs = pre @ p @ suf"
    proof cases
      case 1
      then obtain suf where "c # cs = p @ suf" by (auto simp: startsWith_iff)
      then have "c # cs = [] @ p @ suf" by simp
      then show ?thesis by blast
    next
      case 2
      then obtain pre suf where "cs = pre @ p @ suf" using Cons.IH by blast
      then have "c # cs = (c # pre) @ p @ suf" by simp
      then show ?thesis by blast
    qed
  next
    assume "\<exists>pre suf. c # cs = pre @ p @ suf"
    then obtain pre suf where e: "c # cs = pre @ p @ suf" by blast
    show "includes_str (c # cs) p"
    proof (cases pre)
      case Nil
      then have "startsWith (c # cs) p" using e by (auto simp: startsWith_iff)
      then show ?thesis by simp
    next
      case (Cons a pre')
      then have "cs = pre' @ p @ suf" using e by simp
      then have "includes_str cs p" using Cons.IH by blast
      then show ?thesis by simp
    qed
  qed
qed

lemma toLowerCase_append: "toLowerCase h (a @ b) = toLowerCase h a @ toLowerCase h b"
  by (simp add: toLowerCase_def)

lemma toLowerCase_ascii_word:
  assumes "\<forall>c \<in> set w. 97 \<le> c \<and> c \<le> 122" and "map asciiLower mid = w"
  shows "toLowerCase h mid = w"
  using assms
proof (induction mid arbitrary: w)
  case Nil
  then show ?case by (simp add: toLowerCase_def)
next
  case (Cons c cs)
  then obtain w' where w: "w = asciiLower c # w'" "map asciiLower cs = w'" by auto
  have r: "97 \<le> asciiLower c \<and> asciiLower c \<le> 122" using Cons.prems(1) w by simp
  have "lowerUnit h c = [asciiLower c]"
    using r by (auto simp: lowerUnit_def asciiLower_def split: if_splits)
  moreover have "toLowerCase h cs = w'"
    using Cons.IH [of w'] Cons.prems(1) w by simp
  ultimately show ?case
    using w by (simp add: toLowerCase_def)
qed

lemma containsAnyCase_lower:
  assumes "\<forall>c \<in> set w. 97 \<le> c \<and> c \<le> 122" and "containsAnyCase s w"
  shows "includes_str (toLowerCase h s) w"
proof -
  from assms(2) obtain pre suf where m: "map asciiLower s = pre @ (w @ suf)"
    by (auto simp: containsAnyCase_def includes_str_iff)
  from m obtain a r where a: "s = a @ r" "w @ suf = map asciiLower r"
    unfolding map_eq_append_conv by blast
  from a(2) have "map asciiLower r = w @ suf" by simp
  then obtain mid b where r: "r = mid @ b" "w = map asciiLower mid"
    unfolding map_eq_append_conv by blast
  have s: "s = a @ mid @ b" "map asciiLower mid = w"
    using a(1) r by simp_all
  have "toLowerCase h s = toLowerCase h a @ w @ toLowerCase h b"
    by (simp add: s(1) toLowerCase_append toLowerCase_ascii_word [OF assms(1) s(2)])
  then show ?thesis
    unfolding includes_str_iff by blast
qed

lemma word_continuous: "\<forall>c \<in> set (ascii ''continuous''). 97 \<le> c \<and> c \<le> 122"
  by (simp add: ascii_def)

lemma word_ongoing: "\<forall>c \<in> set (ascii ''ongoing''). 97 \<le> c \<and> c \<le> 122"
  by (simp add: ascii_def)

lemma includes_nonempty: "includes_str s p \<Longrightarrow> p \<noteq> [] \<Longrightarrow> s \<noteq> []"
  by (cases s) auto

lemma containsAnyCase_nonempty: "containsAnyCase s w \<Longrightarrow> w \<noteq> [] \<Longrightarrow> s \<noteq> []"
  unfolding containsAnyCase_def using includes_nonempty [of "map asciiLower s" w] by auto

text \<open>What holds of C1: every keyword in the filter, two of the three in the history.\<close>

lemma continuous_keyword_in_filter:
  assumes "duration med = Some s"
    and "includes_str s kw_mustamirr \<or> containsAnyCase s (ascii ''continuous'')
         \<or> containsAnyCase s (ascii ''ongoing'')"
  shows "filterCallback h now med"
proof -
  have "s \<noteq> []"
    using assms(2) includes_nonempty [of s kw_mustamirr]
      containsAnyCase_nonempty [of s "ascii ''continuous''"]
      containsAnyCase_nonempty [of s "ascii ''ongoing''"]
    by (auto simp: kw_mustamirr_def ascii_def)
  moreover have "includes_str s kw_mustamirr
       \<or> includes_str (toLowerCase h s) (ascii ''continuous'')
       \<or> includes_str (toLowerCase h s) (ascii ''ongoing'')"
    using assms(2) containsAnyCase_lower [OF word_continuous] containsAnyCase_lower [OF word_ongoing]
    by blast
  ultimately have "continuousInFilter h (duration med)"
    by (simp add: continuousInFilter_def assms(1))
  then show ?thesis by (simp add: filterCallback_def)
qed

lemma continuous_keyword_in_history:
  assumes "duration med = Some s"
    and "includes_str s kw_mustamirr \<or> containsAnyCase s (ascii ''continuous'')"
  shows "isMedicationActive h now med vDate"
proof -
  have "s \<noteq> []"
    using assms(2) includes_nonempty [of s kw_mustamirr]
      containsAnyCase_nonempty [of s "ascii ''continuous''"]
    by (auto simp: kw_mustamirr_def ascii_def)
  moreover have "includes_str s kw_mustamirr
       \<or> includes_str (toLowerCase h s) (ascii ''continuous'')"
    using assms(2) containsAnyCase_lower [OF word_continuous] by blast
  ultimately have "continuousInHistory h (duration med)"
    by (simp add: continuousInHistory_def assms(1))
  then show ?thesis by (simp add: isMedicationActive_def)
qed

lemma isMedicationActive_fallback:
  assumes "\<not> continuousInHistory h (duration med)" and "optMatch dayUnits (duration med) = None"
  shows "isMedicationActive h now med (Some p)
           = (real_of_int (now - p) / real_of_int msPerDay \<le> 30)"
  using assms by (simp add: isMedicationActive_def withinDays_Some)

text \<open>
  C1 (the code where the claim fails).  The text \<open>ongoing\<close> holds a continuous
  keyword, and the filter of \<open>getCurrentMedications\<close> keeps the record 31 days
  after the visit; \<open>isMedicationActive\<close>, which stamps the history, does not
  look for \<open>ongoing\<close> and reports the same record inactive at the same instant.
\<close>

theorem ongoing_expires_in_history:
  "containsAnyCase (ascii ''ongoing'') (ascii ''ongoing'')
   \<and> filterCallback utcHost (jan31 + 31 * msPerDay) (sampleRecord (Some (ascii ''ongoing'')) jan31)
   \<and> \<not> isMedicationActive utcHost (jan31 + 31 * msPerDay)
         (sampleRecord (Some (ascii ''ongoing'')) jan31) (Some jan31)"
proof -
  have d: "duration (sampleRecord (Some (ascii ''ongoing'')) jan31) = Some (ascii ''ongoing'')"
    by (simp add: sampleRecord_def)
  have c: "containsAnyCase (ascii ''ongoing'') (ascii ''ongoing'')"
    by code_simp
  have f: "filterCallback utcHost (jan31 + 31 * msPerDay) (sampleRecord (Some (ascii ''ongoing'')) jan31)"
    by (rule continuous_keyword_in_filter [OF d]) (simp add: c)
  have n: "\<not> continuousInHistory utcHost (Some (ascii ''ongoing''))"
    by code_simp
  have m: "optMatch dayUnits (Some (ascii ''ongoing'')) = None"
    by code_simp
  have "\<not> isMedicationActive utcHost (jan31 + 31 * msPerDay)
         (sampleRecord (Some (ascii ''ongoing'')) jan31) (Some jan31)"
    using n m by (simp add: isMedicationActive_fallback d msPerDay_def)
  then show ?thesis
    using c f by blast
qed

section \<open>Durations in weeks and months\<close>

lemma spec_weeks_filter:
  assumes "spec_parseDuration h d = Weeks n"
  shows "\<not> continuousInFilter h d" "optMatch dayUnits d = None"
    "\<exists>ds. optMatch weekUnits d = Some ds \<and> parseInt ds = n"
  using assms
  by (auto simp: spec_parseDuration_def continuousInFilter_def spec_hasContinuousKeyword_def
      optMatch_def split: option.splits if_splits)

lemma filterCallback_weeks:
  assumes "spec_parseDuration h (duration med) = Weeks n" and "visitDate med = Some p"
  shows "filterCallback h now med = dateLe now (TimeClip (sameLocalTimeAfterDays h p (n * 7)))"
proof -
  from spec_weeks_filter [OF assms(1)] obtain ds where
    "\<not> continuousInFilter h (duration med)" "optMatch dayUnits (duration med) = None"
    "optMatch weekUnits (duration med) = Some ds" "parseInt ds = n"
    by blast
  then show ?thesis
    by (simp add: filterCallback_def assms(2) addDays_eq)
qed

lemma spec_months_filter:
  assumes "spec_parseDuration h d = Months n"
  shows "\<not> continuousInFilter h d" "optMatch dayUnits d = None" "optMatch weekUnits d = None"
    "\<exists>ds. optMatch monthUnits d = Some ds \<and> parseInt ds = n"
  using assms
  by (auto simp: spec_parseDuration_def continuousInFilter_def spec_hasContinuousKeyword_def
      optMatch_def split: option.splits if_splits)

lemma filterCallback_months:
  assumes "spec_parseDuration h (duration med) = Months n" and "visitDate med = Some p"
  shows "filterCallback h now med = dateLe now (addMonths h (Some p) n)"
proof -
  from spec_months_filter [OF assms(1)] obtain ds where
    "\<not> continuousInFilter h (duration med)" "optMatch dayUnits (duration med) = None"
    "optMatch weekUnits (duration med) = None"
    "optMatch monthUnits (duration med) = Some ds" "parseInt ds = n"
    by blast
  then show ?thesis
    by (simp add: filterCallback_def assms(2))
qed

lemma isMedicationActive_months:
  assumes "spec_parseDuration h (duration med) = Months n"
  shows "isMedicationActive h now med (Some p)
           = (real_of_int (now - p) / real_of_int msPerDay \<le> 30)"
proof -
  note m = spec_months_filter [OF assms]
  have "\<not> continuousInHistory h (duration med)"
    using m(1) continuousInHistory_imp_filter by blast
  then show ?thesis
    using m(2) by (rule isMedicationActive_fallback)
qed

text \<open>
  C2 (the code where the claim fails).  The weeks pattern holds the singular of
  the Arabic word for week and does not match the plural of the claim's text,
  3 followed by the plural: the text falls through to the default window of 90 days,
  so the record is active 20 days and still active 22 days after the visit.  With
  the singular the text is parsed as three weeks: active 20 days after the visit,
  inactive 22 days after it.
\<close>

theorem plural_weeks_unmatched:
  "matchNumberUnit weekUnits threeWeeksPlural = None
   \<and> spec_parseDuration utcHost (Some threeWeeksPlural) = Unknown
   \<and> filterCallback utcHost (jan31 + 20 * msPerDay) (sampleRecord (Some threeWeeksPlural) jan31)
   \<and> filterCallback utcHost (jan31 + 22 * msPerDay) (sampleRecord (Some threeWeeksPlural) jan31)
   \<and> spec_parseDuration utcHost (Some threeWeeksSingular) = Weeks 3
   \<and> filterCallback utcHost (jan31 + 20 * msPerDay) (sampleRecord (Some threeWeeksSingular) jan31)
   \<and> \<not> filterCallback utcHost (jan31 + 22 * msPerDay) (sampleRecord (Some threeWeeksSingular) jan31)"
proof -
  have m: "matchNumberUnit weekUnits threeWeeksPlural = None"
    by code_simp
  have u: "spec_parseDuration utcHost (duration (sampleRecord (Some threeWeeksPlural) jan31)) = Unknown"
    by code_simp
  have w: "spec_parseDuration utcHost (duration (sampleRecord (Some threeWeeksSingular) jan31)) = Weeks 3"
    by code_simp
  have d: "duration (sampleRecord x jan31) = x" and v: "visitDate (sampleRecord x jan31) = Some jan31" for x
    by (simp_all add: sampleRecord_def)
  have e: "TimeClip (sameLocalTimeAfterDays utcHost jan31 (3 * 7)) = Some (jan31 + 21 * msPerDay)"
    by (simp add: sameLocalTimeAfterDays_def UTC_def LocalTime_def utcHost_def jan31_def
        msPerDay_def TimeClip_def maxTime_def)
  have p: "filterCallback utcHost (jan31 + 20 * msPerDay) (sampleRecord (Some threeWeeksPlural) jan31)"
      "filterCallback utcHost (jan31 + 22 * msPerDay) (sampleRecord (Some threeWeeksPlural) jan31)"
    unfolding filterCallback_unknown [OF u v] by (simp_all add: msPerDay_def)
  have s: "filterCallback utcHost (jan31 + 20 * msPerDay) (sampleRecord (Some threeWeeksSingular) jan31)"
      "\<not> filterCallback utcHost (jan31 + 22 * msPerDay) (sampleRecord (Some threeWeeksSingular) jan31)"
    unfolding filterCallback_weeks [OF w v] e by (simp_all add: dateLe_def msPerDay_def)
  show ?thesis
    using m u w p s unfolding d by blast
qed

lemma YearFromTime_jan31: "YearFromTime jan31 = 2024"
  by (simp add: YearFromTime_def Day_def jan31_def msPerDay_def yearUp.simps yearDown.simps
      DayFromYear_def)

lemma DayWithinYear_jan31: "DayWithinYear jan31 = 30"
  unfolding DayWithinYear_def YearFromTime_jan31
  by (simp add: Day_def jan31_def msPerDay_def DayFromYear_def)

lemma MonthFromTime_jan31: "MonthFromTime jan31 = 0"
  unfolding MonthFromTime_def DayWithinYear_jan31 by simp

lemma DateFromTime_jan31: "DateFromTime jan31 = 31"
  unfolding DateFromTime_def MonthFromTime_jan31 DayWithinYear_jan31
  by (simp add: monthStart_def)

lemma addMonths_jan31: "addMonths utcHost (Some jan31) 2 = Some mar31"
proof -
  have l: "LocalTime utcHost jan31 = jan31"
    by (simp add: LocalTime_def utcHost_def)
  have d: "MakeDay 2024 2 31 = 19813"
    by (simp add: MakeDay_def DayFromYear_def DaysInYear_def monthStart_def)
  have t: "TimeWithinDay jan31 = 0"
    by (simp add: TimeWithinDay_def jan31_def msPerDay_def)
  have "addMonths utcHost (Some jan31) 2
          = TimeClip (UTC utcHost (MakeDate (MakeDay 2024 2 31) 0))"
    unfolding addMonths_def setMonth_def getMonth_def
    by (simp add: l YearFromTime_jan31 MonthFromTime_jan31 DateFromTime_jan31 t)
  also have "\<dots> = Some mar31"
    unfolding d
    by (simp add: MakeDate_def msPerDay_def UTC_def utcHost_def TimeClip_def maxTime_def mar31_def)
  finally show ?thesis .
qed

text \<open>
  C3 (the code where the claim fails).  For the text \<open>2 months\<close> and a visit on
  January 31, the filter of \<open>getCurrentMedications\<close> adds two calendar months:
  the record is active on March 15 and through March 31, and not one second
  later.  \<open>isMedicationActive\<close> has no months pattern and applies its default
  window of 30 days: in the history the same record is inactive on March 15.
\<close>

theorem months_ignored_in_history:
  "spec_parseDuration utcHost (Some (ascii ''2 months'')) = Months 2
   \<and> addMonths utcHost (Some jan31) 2 = Some mar31
   \<and> filterCallback utcHost mar15 (sampleRecord (Some (ascii ''2 months'')) jan31)
   \<and> filterCallback utcHost mar31 (sampleRecord (Some (ascii ''2 months'')) jan31)
   \<and> \<not> filterCallback utcHost (mar31 + 1000) (sampleRecord (Some (ascii ''2 months'')) jan31)
   \<and> \<not> isMedicationActive utcHost mar15 (sampleRecord (Some (ascii ''2 months'')) jan31) (Some jan31)"
proof -
  have m: "spec_parseDuration utcHost (duration (sampleRecord (Some (ascii ''2 months'')) jan31)) = Months 2"
    by code_simp
  have d: "duration (sampleRecord x jan31) = x" and v: "visitDate (sampleRecord x jan31) = Some jan31" for x
    by (simp_all add: sampleRecord_def)
  have f: "filterCallback utcHost mar15 (sampleRecord (Some (ascii ''2 months'')) jan31)"
      "filterCallback utcHost mar31 (sampleRecord (Some (ascii ''2 months'')) jan31)"
      "\<not> filterCallback utcHost (mar31 + 1000) (sampleRecord (Some (ascii ''2 months'')) jan31)"
    unfolding filterCallback_months [OF m v] addMonths_jan31
    by (simp_all add: dateLe_def mar15_def mar31_def)
  have i: "\<not> isMedicationActive utcHost mar15 (sampleRecord (Some (ascii ''2 months'')) jan31) (Some jan31)"
    unfolding isMedicationActive_months [OF m]
    by (simp add: mar15_def jan31_def msPerDay_def)
  show ?thesis
    using m f i addMonths_jan31 unfolding d by blast
qed

section \<open>The order of the medication lists\<close>

lemma notOlder_refl: "notOlder a a"
  by (simp add: notOlder_def split: option.splits)

lemma pushMedications_eq: "pushMedications v meds acc = acc @ map (withVisit v) meds"
  by (induction meds arbitrary: acc) auto

lemma forEachVisit_eq: "forEachVisit vs acc = acc @ concat (map visitRecords vs)"
  by (induction vs arbitrary: acc)
     (auto simp: visitRecords_def pushMedications_eq split: option.splits)

lemma truncate_withVisitActive:
  "medicationRecord.truncate (withVisitActive v med a) = withVisit v med"
  by (simp add: medicationRecord.truncate_def withVisitActive_def withVisit_def)

lemma pushHistory_eq:
  "map medicationRecord.truncate (pushHistory h clock nf v meds acc)
     = map medicationRecord.truncate acc
       @ map (withVisit v) (filter (\<lambda>m. \<not> skippedByName nf m) meds)"
  by (induction meds arbitrary: acc) (auto simp: truncate_withVisitActive)

lemma forEachHistoryVisit_eq:
  "map medicationRecord.truncate (forEachHistoryVisit h clock nf vs acc)
     = map medicationRecord.truncate acc
       @ concat (map (\<lambda>v. map (withVisit v) (filter (\<lambda>m. \<not> skippedByName nf m) (visitPrescriptions v))) vs)"
  by (induction vs arbitrary: acc)
     (auto simp: visitPrescriptions_def pushHistory_eq split: option.splits)

lemma sorted_wrt_all:
  "(\<And>x y. x \<in> set xs \<Longrightarrow> y \<in> set xs \<Longrightarrow> P x y) \<Longrightarrow> sorted_wrt P xs"
  by (induction xs) auto

lemma sorted_wrt_concat_map:
  assumes "sorted_wrt (\<lambda>a b. R (f a) (f b)) vs"
    and "\<And>v x. v \<in> set vs \<Longrightarrow> x \<in> set (g v) \<Longrightarrow> k x = f v"
    and "\<And>a. R a a"
  shows "sorted_wrt (\<lambda>x y. R (k x) (k y)) (concat (map g vs))"
  using assms(1,2)
proof (induction vs)
  case Nil
  then show ?case by simp
next
  case (Cons v vs)
  have kx: "k x = f v" if "x \<in> set (g v)" for x
    using Cons.prems(2) [of v x] that by simp
  have 1: "sorted_wrt (\<lambda>x y. R (k x) (k y)) (g v)"
    by (rule sorted_wrt_all) (simp add: kx assms(3))
  have 2: "sorted_wrt (\<lambda>x y. R (k x) (k y)) (concat (map g vs))"
    using Cons by simp
  have 3: "R (k x) (k y)" if "x \<in> set (g v)" "y \<in> set (concat (map g vs))" for x y
  proof -
    from that(2) obtain w where w: "w \<in> set vs" "y \<in> set (g w)" by auto
    have "R (f v) (f w)" using Cons.prems(1) w(1) by simp
    moreover have "k y = f w"
      using Cons.prems(2) [of w y] w by simp
    ultimately show ?thesis using kx [OF that(1)] by simp
  qed
  show ?case
    using 1 2 3 by (simp add: sorted_wrt_append)
qed

lemma visitDate_withVisit: "visitDate (withVisit v m) = v_visitDate v"
  by (simp add: withVisit_def)

lemma visitDate_truncate: "visitDate (medicationRecord.truncate r) = visitDate r"
  by (simp add: medicationRecord.truncate_def)

text \<open>
  C9.  For completed visits sorted by visit date, newest first, the list of
  \<open>getCurrentMedications\<close> is the concatenation, visit by visit in the order of
  the input, of the visit's records in the order of its prescriptions (those
  that pass the filter), and the history of \<open>getMedicationHistory\<close> is the same
  concatenation of the prescriptions that pass the name filter.  Both lists are
  therefore sorted by visit date, newest first.
\<close>

theorem aggregator_order:
  assumes "sorted_wrt (\<lambda>a b. notOlder (v_visitDate a) (v_visitDate b)) visits"
  shows "(\<exists>ms n. getCurrentMedications h now (Some visits) = CurrentOk ms n
            \<and> ms = concat (map (\<lambda>v. filter (filterCallback h now) (visitRecords v)) visits)
            \<and> sorted_wrt (\<lambda>a b. notOlder (visitDate a) (visitDate b)) ms)
       \<and> (\<exists>hs st. getMedicationHistory h clock nameFilter (Some visits) = HistoryOk hs st
            \<and> map medicationRecord.truncate hs
                = concat (map (\<lambda>v. map (withVisit v)
                      (filter (\<lambda>m. \<not> skippedByName nameFilter m) (visitPrescriptions v))) visits)
            \<and> sorted_wrt (\<lambda>a b. notOlder (visitDate a) (visitDate b)) hs)"
proof -
  let ?ms = "concat (map (\<lambda>v. filter (filterCallback h now) (visitRecords v)) visits)"
  have all: "forEachVisit visits [] = concat (map visitRecords visits)"
    by (simp add: forEachVisit_eq)
  have flt: "filter (filterCallback h now) (concat (map visitRecords visits)) = ?ms"
    by (simp add: filter_concat comp_def)
  have cur: "getCurrentMedications h now (Some visits) = CurrentOk ?ms (length ?ms)"
  proof (cases "visits = []")
    case True
    then show ?thesis by (simp add: getCurrentMedications_def)
  next
    case False
    then show ?thesis
      by (simp add: getCurrentMedications_def filterActiveMedications_def all flt Let_def)
  qed
  have s1: "sorted_wrt (\<lambda>a b. notOlder (visitDate a) (visitDate b)) ?ms"
    by (rule sorted_wrt_concat_map [where R = notOlder and f = v_visitDate and k = visitDate, OF assms])
       (auto simp: visitRecords_def visitDate_withVisit notOlder_refl split: option.splits)
  let ?hs = "forEachHistoryVisit h clock nameFilter visits []"
  let ?g = "\<lambda>v. map (withVisit v) (filter (\<lambda>m. \<not> skippedByName nameFilter m) (visitPrescriptions v))"
  have tr: "map medicationRecord.truncate ?hs = concat (map ?g visits)"
    by (simp add: forEachHistoryVisit_eq)
  have "sorted_wrt (\<lambda>a b. notOlder (visitDate a) (visitDate b)) (concat (map ?g visits))"
    by (rule sorted_wrt_concat_map [where R = notOlder and f = v_visitDate and k = visitDate, OF assms])
       (auto simp: visitDate_withVisit notOlder_refl)
  then have "sorted_wrt (\<lambda>a b. notOlder (visitDate a) (visitDate b)) (map medicationRecord.truncate ?hs)"
    by (simp only: tr)
  then have s2: "sorted_wrt (\<lambda>a b. notOlder (visitDate a) (visitDate b)) ?hs"
    by (simp add: sorted_wrt_map visitDate_truncate)
  have his: "\<exists>st. getMedicationHistory h clock nameFilter (Some visits) = HistoryOk ?hs st"
    by (simp add: getMedicationHistory_def Let_def)
  show ?thesis
    using cur s1 his tr s2 by blast
qed

theorem aggregator_order_witness:
  "sorted_wrt (\<lambda>a b. notOlder (v_visitDate a) (v_visitDate b)) twoVisits
   \<and> (\<exists>ms n. getCurrentMedications utcHost (jan31 + 12 * msPerDay) (Some twoVisits) = CurrentOk ms n
         \<and> map medicationName ms = [ascii ''Amoxicillin'', ascii ''Metformin'', ascii ''Aspirin'']
         \<and> sorted_wrt (\<lambda>a b. notOlder (visitDate a) (visitDate b)) ms)
   \<and> (\<exists>hs st. getMedicationHistory utcHost (\<lambda>k. jan31 + 12 * msPerDay) None (Some twoVisits) = HistoryOk hs st
         \<and> map medicationName hs
              = [ascii ''Amoxicillin'', ascii ''Metformin'', ascii ''Ibuprofen'', ascii ''Aspirin'']
         \<and> sorted_wrt (\<lambda>a b. notOlder (visitDate a) (visitDate b)) hs)"
proof -
  have s: "sorted_wrt (\<lambda>a b. notOlder (v_visitDate a) (v_visitDate b)) twoVisits"
    by (simp add: twoVisits_def sampleVisit_def notOlder_def msPerDay_def)
  note t = aggregator_order [OF s, of utcHost "jan31 + 12 * msPerDay" "\<lambda>k. jan31 + 12 * msPerDay" None]
  from t obtain ms n where
    ms: "getCurrentMedications utcHost (jan31 + 12 * msPerDay) (Some twoVisits) = CurrentOk ms n"
      "sorted_wrt (\<lambda>a b. notOlder (visitDate a) (visitDate b)) ms"
    by blast
  from t obtain hs st where
    hs: "getMedicationHistory utcHost (\<lambda>k. jan31 + 12 * msPerDay) None (Some twoVisits) = HistoryOk hs st"
      "sorted_wrt (\<lambda>a b. notOlder (visitDate a) (visitDate b)) hs"
    by blast
  have e1: "map medicationName (activeMedicationsOf (getCurrentMedications utcHost (jan31 + 12 * msPerDay) (Some twoVisits)))
      = [ascii ''Amoxicillin'', ascii ''Metformin'', ascii ''Aspirin'']"
    by code_simp
  have e2: "(case getMedicationHistory utcHost (\<lambda>k. jan31 + 12 * msPerDay) None (Some twoVisits) of
               HistoryOk hs st \<Rightarrow> map medicationName hs | HistoryFailed m \<Rightarrow> [])
      = [ascii ''Amoxicillin'', ascii ''Metformin'', ascii ''Ibuprofen'', ascii ''Aspirin'']"
    by code_simp
  have m1: "map medicationName ms = [ascii ''Amoxicillin'', ascii ''Metformin'', ascii ''Aspirin'']"
    using e1 ms(1) by (simp add: activeMedicationsOf_def)
  have m2: "map medicationName hs
      = [ascii ''Amoxicillin'', ascii ''Metformin'', ascii ''Ibuprofen'', ascii ''Aspirin'']"
    using e2 hs(1) by simp
  show ?thesis
  proof (intro conjI)
    show "sorted_wrt (\<lambda>a b. notOlder (v_visitDate a) (v_visitDate b)) twoVisits"
      by (rule s)
    show "\<exists>ms n. getCurrentMedications utcHost (jan31 + 12 * msPerDay) (Some twoVisits) = CurrentOk ms n
         \<and> map medicationName ms = [ascii ''Amoxicillin'', ascii ''Metformin'', ascii ''Aspirin'']
         \<and> sorted_wrt (\<lambda>a b. notOlder (visitDate a) (visitDate b)) ms"
      using ms m1 by (intro exI [of _ ms] exI [of _ n]) simp
    show "\<exists>hs st. getMedicationHistory utcHost (\<lambda>k. jan31 + 12 * msPerDay) None (Some twoVisits) = HistoryOk hs st
         \<and> map medicationName hs
              = [ascii ''Amoxicillin'', ascii ''Metformin'', ascii ''Ibuprofen'', ascii ''Aspirin'']
         \<and> sorted_wrt (\<lambda>a b. notOlder (visitDate a) (visitDate b)) hs"
      using hs m2 by (intro exI [of _ hs] exI [of _ st]) simp
  qed
qed

section \<open>The warnings of the interaction check\<close>

lemma indexOfFrom_absent: "x \<notin> set xs \<Longrightarrow> indexOfFrom xs x k = - 1"
  by (induction xs arbitrary: k) auto

lemma indexOfFrom_first:
  "x \<in> set xs \<Longrightarrow>
     \<exists>j < length xs. indexOfFrom xs x k = int (k + j) \<and> xs ! j = x \<and> x \<notin> set (take j xs)"
proof (induction xs arbitrary: k)
  case Nil
  then show ?case by simp
next
  case (Cons y ys)
  show ?case
  proof (cases "y = x")
    case True
    then show ?thesis by (intro exI [of _ 0]) simp
  next
    case False
    with Cons.prems have "x \<in> set ys" by simp
    from Cons.IH [OF this, of "Suc k"] obtain j where
      j: "j < length ys" "indexOfFrom ys x (Suc k) = int (Suc k + j)" "ys ! j = x" "x \<notin> set (take j ys)"
      by blast
    show ?thesis
      using False j by (intro exI [of _ "Suc j"]) simp
  qed
qed

lemma in_take_iff:
  assumes "j \<le> length xs"
  shows "(x \<in> set (take j xs)) = (\<exists>i<j. xs ! i = x)"
proof
  assume "x \<in> set (take j xs)"
  then obtain i where "i < length (take j xs)" "take j xs ! i = x"
    by (auto simp: in_set_conv_nth)
  then have "i < j" "xs ! i = x" by simp_all
  then show "\<exists>i<j. xs ! i = x" by blast
next
  assume "\<exists>i<j. xs ! i = x"
  then obtain i where i: "i < j" "xs ! i = x" by blast
  then have "i < length (take j xs)" "take j xs ! i = x" using assms by simp_all
  then show "x \<in> set (take j xs)" by (metis nth_mem)
qed

lemma indexOf_self:
  assumes "i < length xs"
  shows "(indexOf xs (xs ! i) = int i) = (\<not> (\<exists>i'<i. xs ! i' = xs ! i))"
proof -
  have "xs ! i \<in> set xs" using assms by simp
  from indexOfFrom_first [OF this, of 0] obtain j where
    j: "j < length xs" "indexOf xs (xs ! i) = int j" "xs ! j = xs ! i" "xs ! i \<notin> set (take j xs)"
    by (auto simp: indexOf_def)
  have nj: "\<not> (\<exists>i'<j. xs ! i' = xs ! i)"
    using j(4) in_take_iff [of j xs "xs ! i"] j(1) by simp
  show ?thesis
  proof
    assume "indexOf xs (xs ! i) = int i"
    then have "j = i" using j(2) by simp
    then show "\<not> (\<exists>i'<i. xs ! i' = xs ! i)" using nj by simp
  next
    assume n: "\<not> (\<exists>i'<i. xs ! i' = xs ! i)"
    have "\<not> j < i" using n j(3) by blast
    moreover have "\<not> i < j" using nj by blast
    ultimately have "j = i" by simp
    then show "indexOf xs (xs ! i) = int i" using j(2) by simp
  qed
qed

lemma in_duplicatesOf:
  "(x \<in> set (duplicatesOf xs)) = (\<exists>j<length xs. xs ! j = x \<and> indexOf xs x \<noteq> int j)"
  by (force simp: duplicatesOf_def in_set_enumerate_eq)

lemma set_duplicatesOf:
  "set (duplicatesOf xs) = {x. \<exists>i j. i < j \<and> j < length xs \<and> xs ! i = x \<and> xs ! j = x}"
proof (rule set_eqI)
  fix x
  have "(x \<in> set (duplicatesOf xs)) = (\<exists>j<length xs. xs ! j = x \<and> indexOf xs (xs ! j) \<noteq> int j)"
    unfolding in_duplicatesOf by blast
  also have "\<dots> = (\<exists>j<length xs. xs ! j = x \<and> (\<exists>i<j. xs ! i = xs ! j))"
    using indexOf_self [of _ xs] by blast
  also have "\<dots> = (\<exists>i j. i < j \<and> j < length xs \<and> xs ! i = x \<and> xs ! j = x)"
    by metis
  finally show "(x \<in> set (duplicatesOf xs))
      = (x \<in> {x. \<exists>i j. i < j \<and> j < length xs \<and> xs ! i = x \<and> xs ! j = x})"
    by simp
qed

lemma duplicatesOf_empty: "(duplicatesOf xs = []) = distinct xs"
proof
  assume e: "duplicatesOf xs = []"
  have none: "\<not> (a < b \<and> b < length xs \<and> xs ! a = xs ! b)" for a b
  proof
    assume "a < b \<and> b < length xs \<and> xs ! a = xs ! b"
    then have "xs ! b \<in> {x. \<exists>i j. i < j \<and> j < length xs \<and> xs ! i = x \<and> xs ! j = x}"
      by (intro CollectI exI [of _ a] exI [of _ b]) simp
    then have "xs ! b \<in> set (duplicatesOf xs)"
      by (simp only: set_duplicatesOf)
    then show False using e by simp
  qed
  show "distinct xs"
    unfolding distinct_conv_nth
  proof (intro allI impI)
    fix i j
    assume ij: "i < length xs" "j < length xs" "i \<noteq> j"
    show "xs ! i \<noteq> xs ! j"
    proof (cases "i < j")
      case True
      then show ?thesis using none [of i j] ij by simp
    next
      case False
      then have "j < i" using ij(3) by simp
      then show ?thesis using none [of j i] ij by auto
    qed
  qed
next
  assume d: "distinct xs"
  have "set (duplicatesOf xs) = {}"
  proof (rule equals0I)
    fix x
    assume "x \<in> set (duplicatesOf xs)"
    then have "\<exists>i j. i < j \<and> j < length xs \<and> xs ! i = x \<and> xs ! j = x"
      by (simp only: set_duplicatesOf mem_Collect_eq)
    then obtain i j where ij: "i < j" "j < length xs" "xs ! i = x" "xs ! j = x" by blast
    have "i < length xs" using ij by simp
    then have "xs ! i \<noteq> xs ! j"
      using d ij(1,2) nth_eq_iff_index_eq [of xs i j] by simp
    then show False using ij by simp
  qed
  then show "duplicatesOf xs = []" by simp
qed


lemma warnings_of_check:
  "warningsOf (checkMedicationInteractions h now q) =
     (let ms = activeMedicationsOf (getCurrentMedications h now q);
          names = map (\<lambda>m. toLowerCase h (medicationName m)) ms
      in (if duplicatesOf names = [] then []
          else [DUPLICATE medium duplicateMessage (duplicatesOf names)])
         @ (if 5 \<le> length ms
            then [POLYPHARMACY low (polypharmacyMessage (length ms)) (length ms)] else []))"
proof (cases "getCurrentMedications h now q")
  case (CurrentOk ms n)
  then show ?thesis
    by (cases "ms = []")
       (simp_all add: checkMedicationInteractions_def warningsOf_def activeMedicationsOf_def
          Let_def duplicatesOf_def)
next
  case (CurrentFailed m)
  then show ?thesis
    by (simp add: checkMedicationInteractions_def warningsOf_def activeMedicationsOf_def
        duplicatesOf_def)
qed

text \<open>
  C6.  \<open>checkMedicationInteractions\<close> emits exactly one \<open>DUPLICATE\<close> warning, of
  severity medium and listing the duplicated names, when some name occurs more
  than once among the active medications compared in lower case, and none
  otherwise.  The names listed are those that occur at two positions.
\<close>

theorem duplicate_warning:
  fixes h now q
  defines "names \<equiv> map (\<lambda>m. toLowerCase h (medicationName m))
                     (activeMedicationsOf (getCurrentMedications h now q))"
  shows "filter isDuplicateWarning (warningsOf (checkMedicationInteractions h now q))
           = (if distinct names then []
              else [DUPLICATE medium duplicateMessage (duplicatesOf names)])
       \<and> set (duplicatesOf names)
           = {x. \<exists>i j. i < j \<and> j < length names \<and> names ! i = x \<and> names ! j = x}"
  unfolding warnings_of_check names_def Let_def
  by (simp add: duplicatesOf_empty set_duplicatesOf)

theorem duplicate_warning_witness:
  "filter isDuplicateWarning (warningsOf (checkMedicationInteractions utcHost jan31
       (Some (continuousNamed [''Aspirin'', ''aspirin'', ''Metformin'']))))
     = [DUPLICATE medium duplicateMessage [ascii ''aspirin'']]
   \<and> filter isDuplicateWarning (warningsOf (checkMedicationInteractions utcHost jan31
       (Some (continuousNamed [''Aspirin'', ''Ibuprofen'', ''Metformin''])))) = []"
proof -
  have n1: "map (\<lambda>m. toLowerCase utcHost (medicationName m))
       (activeMedicationsOf (getCurrentMedications utcHost jan31
          (Some (continuousNamed [''Aspirin'', ''aspirin'', ''Metformin'']))))
      = [ascii ''aspirin'', ascii ''aspirin'', ascii ''metformin'']"
    by code_simp
  have n2: "map (\<lambda>m. toLowerCase utcHost (medicationName m))
       (activeMedicationsOf (getCurrentMedications utcHost jan31
          (Some (continuousNamed [''Aspirin'', ''Ibuprofen'', ''Metformin'']))))
      = [ascii ''aspirin'', ascii ''ibuprofen'', ascii ''metformin'']"
    by code_simp
  have d1: "duplicatesOf [ascii ''aspirin'', ascii ''aspirin'', ascii ''metformin''] = [ascii ''aspirin'']"
    by code_simp
  have x1: "\<not> distinct [ascii ''aspirin'', ascii ''aspirin'', ascii ''metformin'']"
    by simp
  have x2: "distinct [ascii ''aspirin'', ascii ''ibuprofen'', ascii ''metformin'']"
    by (simp add: ascii_def)
  show ?thesis
    using duplicate_warning [of utcHost jan31 "Some (continuousNamed [''Aspirin'', ''aspirin'', ''Metformin''])"]
      duplicate_warning [of utcHost jan31 "Some (continuousNamed [''Aspirin'', ''Ibuprofen'', ''Metformin''])"]
    unfolding n1 n2 d1 using x1 x2 by simp
qed

text \<open>
  C7.  \<open>checkMedicationInteractions\<close> emits exactly one \<open>POLYPHARMACY\<close> warning,
  of severity low, with the number of active medications as its count and inside
  its message, when there are at least five active medications, and none
  otherwise.
\<close>

theorem polypharmacy_warning:
  fixes h now q
  defines "n \<equiv> length (activeMedicationsOf (getCurrentMedications h now q))"
  shows "filter isPolypharmacyWarning (warningsOf (checkMedicationInteractions h now q))
           = (if 5 \<le> n then [POLYPHARMACY low (polypharmacyMessage n) n] else [])
       \<and> (\<exists>pre suf. polypharmacyMessage n = pre @ showNat n @ suf)"
proof -
  have "\<exists>pre suf. polypharmacyMessage n = pre @ showNat n @ suf"
    unfolding polypharmacyMessage_def by blast
  then show ?thesis
    unfolding warnings_of_check n_def Let_def by simp
qed

theorem polypharmacy_warning_witness:
  "filter isPolypharmacyWarning (warningsOf (checkMedicationInteractions utcHost jan31
       (Some (continuousNamed [''A'', ''B'', ''C'', ''D'', ''E'']))))
     = [POLYPHARMACY low (polypharmacyMessage 5) 5]
   \<and> filter isPolypharmacyWarning (warningsOf (checkMedicationInteractions utcHost jan31
       (Some (continuousNamed [''A'', ''B'', ''C'', ''D''])))) = []"
proof -
  have l5: "length (activeMedicationsOf (getCurrentMedications utcHost jan31
       (Some (continuousNamed [''A'', ''B'', ''C'', ''D'', ''E''])))) = 5"
    by code_simp
  have l4: "length (activeMedicationsOf (getCurrentMedications utcHost jan31
       (Some (continuousNamed [''A'', ''B'', ''C'', ''D''])))) = 4"
    by code_simp
  show ?thesis
    using polypharmacy_warning [of utcHost jan31 "Some (continuousNamed [''A'', ''B'', ''C'', ''D'', ''E''])"]
      polypharmacy_warning [of utcHost jan31 "Some (continuousNamed [''A'', ''B'', ''C'', ''D''])"]
    unfolding l5 l4 by simp
qed

text \<open>
  C10.  When \<open>getCurrentMedications\<close> returns its failure result,
  \<open>checkMedicationInteractions\<close> returns success with no interactions, no
  warnings and no count: the result it returns for a patient without visits.
\<close>

theorem failure_not_propagated:
  assumes "getCurrentMedications h now q = CurrentFailed m"
  shows "checkMedicationInteractions h now q = CheckOk [] [] None
       \<and> checkMedicationInteractions h now q = checkMedicationInteractions h now (Some [])"
  using assms
  by (simp add: checkMedicationInteractions_def getCurrentMedications_def)

theorem failure_not_propagated_witness:
  "getCurrentMedications utcHost jan31 None = CurrentFailed currentFailedMessage
   \<and> checkMedicationInteractions utcHost jan31 None = CheckOk [] [] None
   \<and> checkMedicationInteractions utcHost jan31 None
       = checkMedicationInteractions utcHost jan31 (Some [])"
proof -
  have f: "getCurrentMedications utcHost jan31 None = CurrentFailed currentFailedMessage"
    by (simp add: getCurrentMedications_def)
  show ?thesis
    using f failure_not_propagated [OF f] by blast
qed

section \<open>The layout of upload paths\<close>

lemma splitSep_nonempty: "splitSep P s \<noteq> []"
  by (induction s) (auto split: list.splits)

lemma splitSep_plain: "\<forall>c \<in> set s. \<not> P c \<Longrightarrow> splitSep P s = [s]"
  by (induction s) auto

lemma splitSep_append:
  "\<forall>c \<in> set s. \<not> P c \<Longrightarrow> P x \<Longrightarrow> splitSep P (s @ x # r) = s # splitSep P r"
  by (induction s) (auto split: list.splits simp: splitSep_nonempty)

lemma splitSep_joinWith:
  "segs \<noteq> [] \<Longrightarrow> \<forall>s \<in> set segs. \<forall>c \<in> set s. \<not> P c \<Longrightarrow> P x
     \<Longrightarrow> splitSep P (joinWith x segs) = segs"
  by (induction x segs rule: joinWith.induct) (auto simp: splitSep_plain splitSep_append)

lemma normalizeSegments_plain:
  "\<forall>s \<in> set segs. plainSegment P s \<Longrightarrow> normalizeSegments a res segs = res @ segs"
  by (induction segs arbitrary: res) (auto simp: plainSegment_def)

lemma joinWith_nonempty:
  "segs \<noteq> [] \<Longrightarrow> \<forall>s \<in> set segs. s \<noteq> [] \<Longrightarrow> joinWith x segs \<noteq> []"
  by (induction x segs rule: joinWith.induct) auto

lemma hd_joinWith: "segs \<noteq> [] \<Longrightarrow> hd segs \<noteq> [] \<Longrightarrow> hd (joinWith x segs) = hd (hd segs)"
  by (induction x segs rule: joinWith.induct) auto

lemma last_joinWith:
  "segs \<noteq> [] \<Longrightarrow> \<forall>s \<in> set segs. s \<noteq> [] \<Longrightarrow> last (joinWith x segs) = last (last segs)"
  by (induction x segs rule: joinWith.induct) (auto simp: joinWith_nonempty)

lemma joinWith_snoc: "segs \<noteq> [] \<Longrightarrow> joinWith x (segs @ [y]) = joinWith x segs @ x # y"
  by (induction x segs rule: joinWith.induct) auto

lemma set_joinWith: "c \<in> set (joinWith x segs) \<Longrightarrow> c = x \<or> (\<exists>s \<in> set segs. c \<in> set s)"
  by (induction x segs rule: joinWith.induct) auto

text \<open>What a path of plain segments looks like at its ends.\<close>

lemma plain_path_ends:
  assumes "segs \<noteq> []" and "\<forall>s \<in> set segs. plainSegment P s"
  shows "joinWith x segs \<noteq> []" "\<not> P (hd (joinWith x segs))" "\<not> P (last (joinWith x segs))"
proof -
  have ne: "\<forall>s \<in> set segs. s \<noteq> []"
    using assms(2) by (auto simp: plainSegment_def)
  show "joinWith x segs \<noteq> []"
    by (rule joinWith_nonempty [OF assms(1) ne])
  have "hd segs \<in> set segs" "last segs \<in> set segs" using assms(1) by simp_all
  then have h: "plainSegment P (hd segs)" and l: "plainSegment P (last segs)"
    using assms(2) by blast+
  have "hd (hd segs) \<in> set (hd segs)" using h by (simp add: plainSegment_def)
  then have "\<not> P (hd (hd segs))" using h by (simp add: plainSegment_def)
  then show "\<not> P (hd (joinWith x segs))"
    using h by (simp add: hd_joinWith [OF assms(1)] plainSegment_def)
  have "last (last segs) \<in> set (last segs)" using l by (simp add: plainSegment_def)
  then have "\<not> P (last (last segs))" using l by (simp add: plainSegment_def)
  then show "\<not> P (last (joinWith x segs))"
    by (simp add: last_joinWith [OF assms(1) ne])
qed

lemma normalizeString_plain:
  assumes "segs \<noteq> []" and "\<forall>s \<in> set segs. plainSegment P s" and "P x"
  shows "normalizeString (joinWith x segs) a x P = joinWith x segs"
proof -
  have "\<forall>s \<in> set segs. \<forall>c \<in> set s. \<not> P c"
    using assms(2) by (auto simp: plainSegment_def)
  then have "splitSep P (joinWith x segs) = segs"
    using assms(1,3) by (intro splitSep_joinWith)
  then show ?thesis
    by (simp add: normalizeString_def normalizeSegments_plain [OF assms(2)])
qed

lemma posixNormalize_plain:
  assumes "segs \<noteq> []" and "\<forall>s \<in> set segs. plainSegment isPosixPathSeparator s"
  shows "posixNormalize (joinWith 47 segs) = joinWith 47 segs"
proof -
  note e = plain_path_ends [OF assms, of 47]
  have n: "normalizeString (joinWith 47 segs) a 47 isPosixPathSeparator = joinWith 47 segs" for a
    by (rule normalizeString_plain [OF assms]) (simp add: isPosixPathSeparator_def)
  show ?thesis
    using e by (simp add: posixNormalize_def n isPosixPathSeparator_def)
qed

lemma posixJoin_plain:
  assumes "segs \<noteq> []" and "\<forall>s \<in> set segs. plainSegment isPosixPathSeparator s"
  shows "posixJoin segs = joinWith 47 segs"
proof -
  have "filter (\<lambda>a. a \<noteq> []) segs = segs"
    using assms(2) by (auto simp: plainSegment_def filter_id_conv)
  then show ?thesis
    using plain_path_ends(1) [OF assms, of 47]
    by (simp add: posixJoin_def posixNormalize_plain [OF assms])
qed

lemma win32Normalize_plain:
  assumes "segs \<noteq> []" and "\<forall>s \<in> set segs. plainSegment isPathSeparator s"
    and "\<forall>s \<in> set segs. 58 \<notin> set s"
  shows "win32Normalize (joinWith 92 segs) = joinWith 92 segs"
proof -
  let ?p = "joinWith 92 segs"
  note e = plain_path_ends [OF assms(1,2), of 92]
  have nc: "58 \<notin> set ?p"
    using set_joinWith [of 58 92 segs] assms(3) by auto
  have n: "normalizeString ?p a 92 isPathSeparator = ?p" for a
    by (rule normalizeString_plain [OF assms(1,2)]) (simp add: isPathSeparator_def)
  show ?thesis
  proof (cases "length ?p = 1")
    case True
    then show ?thesis
      using e by (simp add: win32Normalize_def isPosixPathSeparator_def isPathSeparator_def)
  next
    case False
    then obtain c d rest where p: "?p = c # d # rest"
      using e(1) by (cases ?p; cases "tl ?p") auto
    have c: "\<not> isPathSeparator c" using e(2) p by simp
    have d: "d \<noteq> 58" using nc p by auto
    have r: "win32RootOf ?p = Root None 0 False"
      unfolding p using c d by (simp add: win32RootOf_def)
    have t: "drop 0 ?p = ?p" by simp
    show ?thesis
      using False e nc by (simp add: win32Normalize_def r n)
  qed
qed

lemma win32Join_plain:
  assumes "segs \<noteq> []" and "\<forall>s \<in> set segs. plainSegment isPathSeparator s"
    and "\<forall>s \<in> set segs. 58 \<notin> set s"
  shows "win32Join segs = joinWith 92 segs"
proof -
  let ?p = "joinWith 92 segs"
  note e = plain_path_ends [OF assms(1,2), of 92]
  have f: "filter (\<lambda>a. a \<noteq> []) segs = segs"
    using assms(2) by (auto simp: plainSegment_def filter_id_conv)
  have "hd segs \<in> set segs" using assms(1) by simp
  then have h: "hd segs \<noteq> []" "\<not> isPathSeparator (hd (hd segs))"
    using e(2) assms(2) by (auto simp: plainSegment_def hd_joinWith [OF assms(1)])
  have u: "(case hd segs of
              a # b # c # r \<Rightarrow> isPathSeparator a \<and> isPathSeparator b \<and> \<not> isPathSeparator c
            | _ \<Rightarrow> False) = False"
    using h by (auto split: list.splits)
  have k: "takeWhile isPathSeparator ?p = []"
    using e(1,2) by (cases ?p) auto
  show ?thesis
    using assms(1) by (simp add: win32Join_def f Let_def u k win32Normalize_plain [OF assms])
qed


lemma plainOn_marker:
  assumes "separatorFree h s" and "c \<in> set s" and "c \<noteq> 46"
  shows "plainOn h s"
  using assms by (auto simp: plainOn_def)

lemma separatorFree_append [simp]:
  "separatorFree h (a @ b) = (separatorFree h a \<and> separatorFree h b)"
  by (auto simp: separatorFree_def)

lemma separatorFree_chars:
  "\<forall>c \<in> set s. c \<noteq> 47 \<and> c \<noteq> 92 \<and> c \<noteq> 58 \<Longrightarrow> separatorFree h s"
  by (auto simp: separatorFree_def isSeparatorOn_def isPosixPathSeparator_def isPathSeparator_def
      split: platform.splits)

lemma pathJoin_plain:
  assumes "segs \<noteq> []" and "\<forall>s \<in> set segs. plainOn h s"
  shows "pathJoin h segs = joinWith (separatorOf h) segs"
proof (cases "platform h")
  case Posix
  have "\<forall>s \<in> set segs. plainSegment isPosixPathSeparator s"
    using assms(2) Posix by (auto simp: plainOn_def plainSegment_def separatorFree_def isSeparatorOn_def)
  then show ?thesis
    using Posix by (simp add: pathJoin_def separatorOf_def posixJoin_plain [OF assms(1)])
next
  case Win32
  have "\<forall>s \<in> set segs. plainSegment isPathSeparator s" "\<forall>s \<in> set segs. 58 \<notin> set s"
    using assms(2) Win32 by (auto simp: plainOn_def plainSegment_def separatorFree_def isSeparatorOn_def)
  then show ?thesis
    using Win32 by (simp add: pathJoin_def separatorOf_def win32Join_plain [OF assms(1)])
qed

lemma pathJoin_dir_file:
  assumes "segs \<noteq> []" and "\<forall>s \<in> set segs. plainOn h s" and "plainOn h f"
  shows "pathJoin h [joinWith (separatorOf h) segs, f] = joinWith (separatorOf h) segs @ separatorOf h # f"
proof -
  let ?x = "separatorOf h"
  let ?a = "joinWith ?x segs"
  have all: "\<forall>s \<in> set (segs @ [f]). plainOn h s" using assms(2,3) by simp
  have whole: "pathJoin h (segs @ [f]) = ?a @ ?x # f"
    using pathJoin_plain [OF _ all] by (simp add: joinWith_snoc [OF assms(1)])
  have f: "f \<noteq> []" using assms(3) by (simp add: plainOn_def)
  show ?thesis
  proof (cases "platform h")
    case Posix
    have p: "\<forall>s \<in> set segs. plainSegment isPosixPathSeparator s"
      using assms(2) Posix by (auto simp: plainOn_def plainSegment_def separatorFree_def isSeparatorOn_def)
    have a: "joinWith 47 segs \<noteq> []"
      by (rule plain_path_ends(1) [OF assms(1) p])
    have fl: "filter (\<lambda>a. a \<noteq> []) (segs @ [f]) = segs @ [f]"
      using all by (auto simp: plainOn_def filter_id_conv)
    have fs: "filter (\<lambda>a. a \<noteq> []) segs = segs"
      using assms(2) by (auto simp: plainOn_def filter_id_conv)
    have "posixJoin [joinWith 47 segs, f] = posixJoin (segs @ [f])"
      using a f
      by (simp add: posixJoin_def fs Let_def joinWith_snoc [OF assms(1)])
    then show ?thesis
      using whole Posix by (simp add: pathJoin_def separatorOf_def)
  next
    case Win32
    have p: "\<forall>s \<in> set segs. plainSegment isPathSeparator s"
      using assms(2) Win32 by (auto simp: plainOn_def plainSegment_def separatorFree_def isSeparatorOn_def)
    note e = plain_path_ends [OF assms(1) p, of 92]
    have pa: "\<forall>s \<in> set (segs @ [f]). plainSegment isPathSeparator s"
      and nc: "\<forall>s \<in> set (segs @ [f]). 58 \<notin> set s"
      using all Win32 by (auto simp: plainOn_def plainSegment_def separatorFree_def isSeparatorOn_def)
    have u2: "(case joinWith 92 segs of
              a # b # c # r \<Rightarrow> isPathSeparator a \<and> isPathSeparator b \<and> \<not> isPathSeparator c
            | _ \<Rightarrow> False) = False"
      using e(1,2) by (auto split: list.splits)
    have k: "takeWhile isPathSeparator (joinWith 92 segs @ 92 # f) = []"
      using e(1,2) by (cases "joinWith 92 segs") auto
    have "win32Join [joinWith 92 segs, f] = win32Normalize (joinWith 92 segs @ 92 # f)"
      using e(1) f by (simp add: win32Join_def Let_def u2 k)
    also have "\<dots> = win32Normalize (joinWith 92 (segs @ [f]))"
      by (simp add: joinWith_snoc [OF assms(1)])
    also have "\<dots> = joinWith 92 (segs @ [f])"
      by (rule win32Normalize_plain [OF _ pa nc]) simp
    also have "\<dots> = win32Join (segs @ [f])"
      by (rule win32Join_plain [symmetric, OF _ pa nc]) simp
    finally have "win32Join [joinWith 92 segs, f] = win32Join (segs @ [f])" .
    then show ?thesis
      using whole Win32 by (simp add: pathJoin_def separatorOf_def)
  qed
qed


lemma showNat_digits: "c \<in> set (showNat n) \<Longrightarrow> 48 \<le> c \<and> c \<le> 57"
proof (induction n arbitrary: c rule: showNat.induct)
  case (1 n)
  show ?case
  proof (cases "n < 10")
    case True
    then show ?thesis using "1.prems" by (simp add: showNat.simps [of n])
  next
    case False
    then have "c \<in> set (showNat (n div 10)) \<or> c = 48 + n mod 10"
      using "1.prems" by (auto simp: showNat.simps [of n])
    then show ?thesis
    proof
      assume "c \<in> set (showNat (n div 10))"
      then show ?thesis using "1.IH" False by simp
    next
      assume "c = 48 + n mod 10"
      moreover have "n mod 10 < 10" by simp
      ultimately show ?thesis by linarith
    qed
  qed
qed

lemma showNat_nonempty: "showNat n \<noteq> []"
  by (simp add: showNat.simps [of n])

lemma showInt_chars: "c \<in> set (showInt y) \<Longrightarrow> c = 45 \<or> (48 \<le> c \<and> c \<le> 57)"
proof -
  assume "c \<in> set (showInt y)"
  then obtain k where "c = 45 \<or> c \<in> set (showNat k)"
    by (auto simp: showInt_def split: if_splits)
  then show ?thesis using showNat_digits [of c k] by auto
qed

lemma pad_chars: "c \<in> set (pad w n) \<Longrightarrow> 48 \<le> c \<and> c \<le> 57"
proof -
  assume "c \<in> set (pad w n)"
  then have "c = 48 \<or> c \<in> set (showNat (nat n))"
    by (auto simp: pad_def padStart0_def)
  then show ?thesis using showNat_digits [of c "nat n"] by auto
qed

lemma plainOn_showInt: "plainOn h (showInt y)"
proof -
  obtain c where c: "c \<in> set (showNat (nat \<bar>y\<bar>))"
    using showNat_nonempty [of "nat \<bar>y\<bar>"] by (cases "showNat (nat \<bar>y\<bar>)") auto
  have d: "48 \<le> c \<and> c \<le> 57" using showNat_digits [OF c] .
  have m: "c \<in> set (showInt y)"
    using c by (auto simp: showInt_def abs_if)
  have "separatorFree h (showInt y)"
    by (rule separatorFree_chars) (use showInt_chars in fastforce)
  then show ?thesis
    using m d by (intro plainOn_marker [of _ _ c]) auto
qed

lemma plainOn_pad: "plainOn h (pad w n)"
proof -
  obtain c where c: "c \<in> set (showNat (nat n))"
    using showNat_nonempty [of "nat n"] by (cases "showNat (nat n)") auto
  have d: "48 \<le> c \<and> c \<le> 57" using showNat_digits [OF c] .
  have m: "c \<in> set (pad w n)"
    using c by (simp add: pad_def padStart0_def)
  have "separatorFree h (pad w n)"
    by (rule separatorFree_chars) (use pad_chars in fastforce)
  then show ?thesis
    using m d by (intro plainOn_marker [of _ _ c]) auto
qed

lemma length_month: "0 \<le> m \<Longrightarrow> m \<le> 11 \<Longrightarrow> length (pad 2 (m + 1)) = 2"
proof -
  assume m: "0 \<le> m" "m \<le> 11"
  let ?k = "nat (m + 1)"
  have k: "?k < 100" using m by simp
  have "length (showNat ?k) = (if ?k < 10 then 1 else 2)"
  proof (cases "?k < 10")
    case True
    then show ?thesis by (simp add: showNat.simps [of ?k])
  next
    case False
    then have "?k div 10 < 10" using k by simp
    then have "length (showNat (?k div 10)) = 1"
      by (simp add: showNat.simps [of "?k div 10"])
    then show ?thesis using False by (simp add: showNat.simps [of ?k])
  qed
  then show ?thesis
    by (simp add: pad_def padStart0_def)
qed

lemma isoYear_chars: "c \<in> set (isoYear y) \<Longrightarrow> c = 45 \<or> c = 43 \<or> (48 \<le> c \<and> c \<le> 57)"
  using pad_chars by (fastforce simp: isoYear_def split: if_splits)

lemma toISOString_chars:
  "c \<in> set (toISOString t) \<Longrightarrow> c \<noteq> 47 \<and> c \<noteq> 92"
proof -
  assume "c \<in> set (toISOString t)"
  then consider "c \<in> set (isoYear (YearFromTime t))"
    | n where "c \<in> set (pad 2 n)" | n where "c \<in> set (pad 3 n)"
    | "c \<in> {45, 84, 58, 46, 90}"
    by (auto simp: toISOString_def ascii_def)
  then show ?thesis
  proof cases
    case 1
    then show ?thesis using isoYear_chars [of c] by auto
  next
    case 2
    then show ?thesis using pad_chars [of c] by auto
  next
    case 3
    then show ?thesis using pad_chars [of c] by auto
  next
    case 4
    then show ?thesis by auto
  qed
qed

lemma timestamp_eq: "beforeFirstDot (replaceColonDot s) = replaceColonDot s"
proof -
  have "\<forall>c \<in> set (replaceColonDot s). c \<noteq> 46"
    by (auto simp: replaceColonDot_def)
  then show ?thesis
    by (simp add: beforeFirstDot_def takeWhile_eq_all_conv)
qed

lemma timestamp_chars:
  "c \<in> set (replaceColonDot (toISOString t)) \<Longrightarrow> c \<noteq> 47 \<and> c \<noteq> 92 \<and> c \<noteq> 58"
  using toISOString_chars [of _ t] by (auto simp: replaceColonDot_def)

lemma separatorFree_timestamp: "separatorFree h (replaceColonDot (toISOString t))"
  by (rule separatorFree_chars) (use timestamp_chars in blast)

lemma set_basenamePart: "c \<in> set (basenamePart P p) \<Longrightarrow> c \<in> set p \<and> \<not> P c"
proof -
  assume "c \<in> set (basenamePart P p)"
  then have a: "c \<in> set (takeWhile (\<lambda>c. \<not> P c) (dropWhile P (rev p)))"
    by (simp add: basenamePart_def)
  then have "c \<in> set (dropWhile P (rev p))" "\<not> P c"
    using set_takeWhileD by fastforce+
  then show ?thesis
    using set_dropWhileD by fastforce
qed

lemma set_extnameOf: "c \<in> set (extnameOf P p) \<Longrightarrow> c = 46 \<or> (c \<in> set p \<and> \<not> P c)"
proof -
  assume a: "c \<in> set (extnameOf P p)"
  have "set (takeWhile (\<lambda>c. c \<noteq> 46) xs) \<subseteq> set xs" for xs :: jsstring
    using set_takeWhileD by fastforce
  then have "set (rev (takeWhile (\<lambda>c. c \<noteq> 46) (rev (basenamePart P p)))) \<subseteq> set (basenamePart P p)"
    by fastforce
  then have "c = 46 \<or> c \<in> set (basenamePart P p)"
    using a by (auto simp: extnameOf_def Let_def split: if_splits)
  then show ?thesis
    using set_basenamePart by blast
qed

lemma extname_cases:
  "extname h p = extnameOf (isSeparatorOn h) p
   \<or> (\<exists>c rest. p = c # 58 # rest \<and> extname h p = extnameOf (isSeparatorOn h) rest)"
proof (cases "platform h")
  case Posix
  then have "isSeparatorOn h = isPosixPathSeparator"
    by (auto simp: isSeparatorOn_def isPosixPathSeparator_def)
  then show ?thesis
    using Posix by (simp add: extname_def posixExtname_def)
next
  case Win32
  then have "isSeparatorOn h = isPathSeparator"
    by (auto simp: isSeparatorOn_def isPathSeparator_def)
  then show ?thesis
    using Win32 by (auto simp: extname_def win32Extname_def split: list.splits)
qed

lemma set_extname: "c \<in> set (extname h p) \<Longrightarrow> c \<in> set p \<or> c = 46"
proof -
  assume a: "c \<in> set (extname h p)"
  from extname_cases [of h p] show ?thesis
  proof
    assume "extname h p = extnameOf (isSeparatorOn h) p"
    then show ?thesis using a set_extnameOf [of c "isSeparatorOn h" p] by auto
  next
    assume "\<exists>d rest. p = d # 58 # rest \<and> extname h p = extnameOf (isSeparatorOn h) rest"
    then obtain d rest where "p = d # 58 # rest" "extname h p = extnameOf (isSeparatorOn h) rest"
      by blast
    then show ?thesis using a set_extnameOf [of c "isSeparatorOn h" rest] by auto
  qed
qed

lemma extname_no_separator: "c \<in> set (extname h p) \<Longrightarrow> \<not> isSeparatorOn h c"
proof -
  assume a: "c \<in> set (extname h p)"
  have d: "\<not> isSeparatorOn h 46"
    by (simp add: isSeparatorOn_def isPosixPathSeparator_def isPathSeparator_def split: platform.splits)
  from extname_cases [of h p] show ?thesis
  proof
    assume "extname h p = extnameOf (isSeparatorOn h) p"
    then show ?thesis using a d set_extnameOf [of c "isSeparatorOn h" p] by auto
  next
    assume "\<exists>d rest. p = d # 58 # rest \<and> extname h p = extnameOf (isSeparatorOn h) rest"
    then obtain e rest where "p = e # 58 # rest" "extname h p = extnameOf (isSeparatorOn h) rest"
      by blast
    then show ?thesis using a d set_extnameOf [of c "isSeparatorOn h" rest] by auto
  qed
qed

lemma extnameOf_no_dot: "46 \<notin> set f \<Longrightarrow> extnameOf P f = []"
  using set_basenamePart [of 46 P f] by (auto simp: extnameOf_def Let_def)

lemma extname_no_dot: "46 \<notin> set f \<Longrightarrow> extname h f = []"
  by (auto simp: extname_def posixExtname_def win32Extname_def extnameOf_no_dot
      split: platform.splits list.splits)

lemma extnameOf_simple:
  assumes "b \<noteq> []" and "e \<noteq> []" and "\<forall>c \<in> set b. \<not> P c" and "\<forall>c \<in> set e. \<not> P c"
    and "46 \<notin> set e" and "\<not> P 46"
  shows "extnameOf P (b @ 46 # e) = 46 # e"
proof -
  have r: "rev (b @ 46 # e) = rev e @ 46 # rev b" by simp
  have "last e \<in> set e" using assms(2) by simp
  then have "\<not> P (last e)" using assms(4) by auto
  then have d: "dropWhile P (rev e @ 46 # rev b) = rev e @ 46 # rev b"
    using assms(2) by (cases "rev e") (auto simp: hd_rev)
  have t: "takeWhile (\<lambda>c. \<not> P c) (rev e @ 46 # rev b) = rev e @ 46 # rev b"
    using assms(3,4,6) by (auto simp: takeWhile_eq_all_conv)
  have bp: "basenamePart P (b @ 46 # e) = b @ 46 # e"
    unfolding basenamePart_def r d t by simp
  have e: "takeWhile (\<lambda>c. c \<noteq> 46) (rev e @ 46 # rev b) = rev e"
    using assms(5) by (auto simp: takeWhile_tail)
  have "3 \<le> length (b @ 46 # e)"
    using assms(1,2) by (cases b; cases e) auto
  have "b @ 46 # e \<noteq> [46, 46]"
  proof
    assume "b @ 46 # e = [46, 46]"
    then have "length (b @ 46 # e) = length [46 :: nat, 46]" by (rule arg_cong)
    then show False using \<open>3 \<le> length (b @ 46 # e)\<close> by simp
  qed
  then show ?thesis
    using assms(1) by (simp add: extnameOf_def bp Let_def r e)
qed

lemma extname_simple:
  assumes "b \<noteq> []" and "e \<noteq> []" and "separatorFree h b" and "separatorFree h e" and "46 \<notin> set e"
  shows "extname h (b @ 46 # e) = 46 # e"
proof (cases "platform h")
  case Posix
  have "extnameOf isPosixPathSeparator (b @ 46 # e) = 46 # e"
    using assms Posix
    by (intro extnameOf_simple) (auto simp: separatorFree_def isSeparatorOn_def isPosixPathSeparator_def)
  then show ?thesis
    using Posix by (simp add: extname_def posixExtname_def)
next
  case Win32
  have x: "extnameOf isPathSeparator (b @ 46 # e) = 46 # e"
    using assms Win32
    by (intro extnameOf_simple) (auto simp: separatorFree_def isSeparatorOn_def isPathSeparator_def)
  have nb: "58 \<notin> set b"
    using assms(3) Win32 by (auto simp: separatorFree_def)
  obtain c d rest where p: "b @ 46 # e = c # d # rest"
    using assms(1,2) by (cases b; cases "tl b"; cases e) auto
  have "d \<noteq> 58"
    using p nb assms(1) by (cases b; cases "tl b") auto
  then show ?thesis
    using Win32 x by (simp add: extname_def win32Extname_def p [symmetric] flip: p)
       (simp add: p)
qed


lemma replaceBackslashes_append [simp]:
  "replaceBackslashes (a @ b) = replaceBackslashes a @ replaceBackslashes b"
  by (simp add: replaceBackslashes_def)

lemma replaceBackslashes_Nil [simp]: "replaceBackslashes [] = []"
  by (simp add: replaceBackslashes_def)

lemma replaceBackslashes_Cons [simp]:
  "replaceBackslashes (c # s) = (if c = 92 then 47 else c) # replaceBackslashes s"
  by (simp add: replaceBackslashes_def)

lemma replaceBackslashes_id: "92 \<notin> set s \<Longrightarrow> replaceBackslashes s = s"
  by (induction s) (auto simp: replaceBackslashes_def)

lemma replaceBackslashes_separator:
  "(if separatorOf h = 92 then 47 else separatorOf h) = 47"
  by (simp add: separatorOf_def split: platform.splits)

lemma relativePath_no_backslash:
  "92 \<notin> set (relativePath (generateFilePath h now random36 uploadType patientId originalFilename))"
  by (auto simp: generateFilePath_def Let_def replaceBackslashes_def)

lemma joinWith_five:
  "joinWith x [a, b, c, d, e] = a @ [x] @ b @ [x] @ c @ [x] @ d @ [x] @ e"
  by simp

text \<open>
  C8 (as amended).  On a POSIX host and on a Windows host, for every upload
  type, owner, original filename, time and random number: \<open>relativePath\<close> is
  \<open>fullPath\<close> with its backslashes replaced by slashes, and holds no
  backslash; the filename is the upload type, the ISO timestamp of the time
  with colons and the dot replaced by hyphens (through the milliseconds and
  \<open>Z\<close>), and the random token, joined by underscores and followed by the
  extension of the original filename as \<open>path.extname\<close> of the host gives it;
  the token is the characters 2 to 9 of the rendering of the random number,
  eight characters when the rendering has at least ten; the month has two
  digits; a filename without a dot has no extension, and a simple name \<open>b.e\<close>
  (\<open>b\<close> and \<open>e\<close> not empty and separator free on the host, \<open>e\<close> without a
  dot) has the extension \<open>.e\<close>.

  When the upload type, the owner, the rendering of the random number and the
  extension are separator free on the host (no slash on POSIX; no slash, no
  backslash and no colon on Windows), the directory is \<open>uploads\<close>,
  \<open><type>s\<close>, the host's local year, its two-digit local month and
  \<open>patient_<owner>\<close>, joined by the separator the host writes (the slash on
  POSIX, the backslash on Windows); \<open>fullPath\<close> is the directory, that
  separator and the filename; and \<open>relativePath\<close> is
  \<open>uploads/<type>s/<year>/<month>/patient_<owner>/<filename>\<close> with slashes on
  either host, the backslashes that the type, the owner and the filename may
  hold on POSIX replaced as well.
\<close>

theorem generateFilePath_layout:
  fixes h now random36 uploadType patientId originalFilename
  defines "fp \<equiv> generateFilePath h now random36 uploadType patientId originalFilename"
    and "year \<equiv> showInt (YearFromTime (LocalTime h now))"
    and "month \<equiv> pad 2 (MonthFromTime (LocalTime h now) + 1)"
    and "token \<equiv> substring 2 10 random36"
    and "ext \<equiv> extname h originalFilename"
    and "sep \<equiv> separatorOf h"
  shows "92 \<notin> set (relativePath fp)
       \<and> relativePath fp = replaceBackslashes (fullPath fp)
       \<and> filename fp = uploadType @ ascii ''_'' @ replaceColonDot (toISOString now) @ ascii ''_''
                          @ token @ ext
       \<and> length token = min 8 (length random36 - 2)
       \<and> length month = 2
       \<and> (46 \<notin> set originalFilename \<longrightarrow> ext = [])
       \<and> (originalFilename = b @ 46 # e \<and> b \<noteq> [] \<and> e \<noteq> [] \<and> separatorFree h b \<and> separatorFree h e
            \<and> 46 \<notin> set e \<longrightarrow> ext = 46 # e)
       \<and> (separatorFree h uploadType \<and> separatorFree h patientId \<and> separatorFree h random36
            \<and> separatorFree h ext \<longrightarrow>
            directory fp = ascii ''uploads'' @ [sep] @ uploadType @ ascii ''s'' @ [sep] @ year @ [sep]
                             @ month @ [sep] @ ascii ''patient_'' @ patientId
          \<and> fullPath fp = directory fp @ [sep] @ filename fp
          \<and> relativePath fp = ascii ''uploads/'' @ replaceBackslashes uploadType @ ascii ''s/'' @ year
                             @ ascii ''/'' @ month @ ascii ''/patient_'' @ replaceBackslashes patientId
                             @ ascii ''/'' @ replaceBackslashes (filename fp))"
proof -
  let ?fname = "uploadType @ ascii ''_'' @ replaceColonDot (toISOString now) @ ascii ''_''
                  @ token @ ext"
  let ?segs = "[ascii ''uploads'', uploadType @ ascii ''s'', year, month, ascii ''patient_'' @ patientId]"
  have fn: "filename fp = ?fname"
    by (simp add: fp_def generateFilePath_def Let_def timestamp_eq token_def ext_def)
  have dir: "directory fp = pathJoin h ?segs"
    by (simp add: fp_def generateFilePath_def Let_def year_def month_def)
  have full: "fullPath fp = pathJoin h [directory fp, filename fp]"
    by (simp add: fp_def generateFilePath_def Let_def)
  have rel: "relativePath fp = replaceBackslashes (fullPath fp)"
    by (simp add: fp_def generateFilePath_def Let_def)
  have nb: "92 \<notin> set (relativePath fp)"
    unfolding fp_def by (rule relativePath_no_backslash)
  have tk: "length token = min 8 (length random36 - 2)"
    by (simp add: token_def substring_def)
  have mo: "length month = 2"
    unfolding month_def using MonthFromTime_range [of "LocalTime h now"] by (intro length_month) simp_all
  have e1: "46 \<notin> set originalFilename \<longrightarrow> ext = []"
    unfolding ext_def using extname_no_dot by blast
  have e2: "originalFilename = b @ 46 # e \<and> b \<noteq> [] \<and> e \<noteq> [] \<and> separatorFree h b \<and> separatorFree h e
            \<and> 46 \<notin> set e \<longrightarrow> ext = 46 # e"
    unfolding ext_def using extname_simple [of b e h] by blast
  have paths: "directory fp = ascii ''uploads'' @ [sep] @ uploadType @ ascii ''s'' @ [sep] @ year @ [sep]
                             @ month @ [sep] @ ascii ''patient_'' @ patientId
          \<and> fullPath fp = directory fp @ [sep] @ filename fp
          \<and> relativePath fp = ascii ''uploads/'' @ replaceBackslashes uploadType @ ascii ''s/'' @ year
                             @ ascii ''/'' @ month @ ascii ''/patient_'' @ replaceBackslashes patientId
                             @ ascii ''/'' @ replaceBackslashes (filename fp)"
    if a: "separatorFree h uploadType" "separatorFree h patientId" "separatorFree h random36"
      "separatorFree h ext"
  proof -
    have s1: "separatorFree h (ascii ''uploads'')" "separatorFree h (ascii ''s'')"
      "separatorFree h (ascii ''patient_'')" "separatorFree h (ascii ''_'')"
      by (rule separatorFree_chars, simp add: ascii_def)+
    have p1: "plainOn h (ascii ''uploads'')"
      using s1(1) by (intro plainOn_marker [of _ _ 117]) (simp_all add: ascii_def)
    have p2: "plainOn h (uploadType @ ascii ''s'')"
      using a(1) s1(2) by (intro plainOn_marker [of _ _ 115]) (simp_all add: ascii_def)
    have p3: "plainOn h year"
      unfolding year_def by (rule plainOn_showInt)
    have p4: "plainOn h month"
      unfolding month_def by (rule plainOn_pad)
    have "separatorFree h (ascii ''patient_'' @ patientId)"
      using a(2) s1(3) by simp
    then have p5: "plainOn h (ascii ''patient_'' @ patientId)"
      by (rule plainOn_marker [of _ _ 112]) (simp_all add: ascii_def)
    have all: "\<forall>s \<in> set ?segs. plainOn h s"
      using p1 p2 p3 p4 p5 by simp
    have "set token \<subseteq> set random36"
      unfolding token_def substring_def
      by (meson set_take_subset set_drop_subset subset_trans)
    then have t: "separatorFree h token"
      using a(3) by (auto simp: separatorFree_def)
    have "separatorFree h ?fname"
      using a(1,4) t s1(4) separatorFree_timestamp [of h now] by simp
    then have pf: "plainOn h ?fname"
      by (rule plainOn_marker [of _ _ 95]) (simp_all add: ascii_def)
    have d: "directory fp = joinWith sep ?segs"
      unfolding dir sep_def by (rule pathJoin_plain [OF _ all]) simp
    have f: "fullPath fp = joinWith sep ?segs @ sep # ?fname"
      unfolding full fn unfolding d unfolding sep_def by (rule pathJoin_dir_file [OF _ all pf]) simp
    have d5: "directory fp = ascii ''uploads'' @ [sep] @ uploadType @ ascii ''s'' @ [sep] @ year @ [sep]
                             @ month @ [sep] @ ascii ''patient_'' @ patientId"
      unfolding d joinWith_five by simp
    have f5: "fullPath fp = directory fp @ [sep] @ filename fp"
      unfolding f fn unfolding d by simp
    have ry: "replaceBackslashes year = year"
      unfolding year_def using showInt_chars [of 92] by (intro replaceBackslashes_id) auto
    have rm: "replaceBackslashes month = month"
      unfolding month_def using pad_chars [of 92] by (intro replaceBackslashes_id) auto
    have rs: "(if sep = 92 then 47 else sep) = 47"
      unfolding sep_def by (rule replaceBackslashes_separator)
    have r5: "relativePath fp = ascii ''uploads/'' @ replaceBackslashes uploadType @ ascii ''s/'' @ year
                             @ ascii ''/'' @ month @ ascii ''/patient_'' @ replaceBackslashes patientId
                             @ ascii ''/'' @ replaceBackslashes (filename fp)"
      unfolding rel f5 unfolding d5
      by (simp add: ry rm rs) (simp add: ascii_def)
    show ?thesis
      using d5 f5 r5 by blast
  qed
  show ?thesis
    using nb rel fn tk mo e1 e2 paths by blast
qed

lemma showInt_2024: "showInt 2024 = ascii ''2024''"
  by (simp add: showInt_def showNat.simps ascii_def)

lemma pad_2_1: "pad 2 1 = ascii ''01''"
  by code_simp

lemma LocalTime_utcHost: "LocalTime utcHost t = t"
  by (simp add: LocalTime_def utcHost_def)

lemma LocalTime_windowsHost: "LocalTime windowsHost t = t"
  by (simp add: LocalTime_def windowsHost_def)

lemma toISOString_jan31: "replaceColonDot (toISOString jan31) = ascii ''2024-01-31T00-00-00-000Z''"
proof -
  have t: "TimeWithinDay jan31 = 0"
    by (simp add: TimeWithinDay_def jan31_def msPerDay_def)
  have "toISOString jan31 = ascii ''2024-01-31T00:00:00.000Z''"
    unfolding toISOString_def YearFromTime_jan31 MonthFromTime_jan31 DateFromTime_jan31
      HourFromTime_def MinFromTime_def SecFromTime_def msFromTime_def t
    by code_simp
  moreover have "replaceColonDot (ascii ''2024-01-31T00:00:00.000Z'') = ascii ''2024-01-31T00-00-00-000Z''"
    by code_simp
  ultimately show ?thesis
    by simp
qed

lemma timestamp_jan31:
  "beforeFirstDot (replaceColonDot (toISOString jan31)) = ascii ''2024-01-31T00-00-00-000Z''"
  by (subst timestamp_eq) (rule toISOString_jan31)

lemma separatorFree_samples:
  "separatorFree h (ascii ''visit'')" "separatorFree h (ascii ''12345678901'')"
  "separatorFree h sampleRandom36" "separatorFree h (ascii ''scan'')" "separatorFree h (ascii ''jpg'')"
  "separatorFree h (46 # ascii ''jpg'')"
  by (rule separatorFree_chars, simp add: ascii_def sampleRandom36_def)+

text \<open>
  \<open>path.join\<close> normalises its result: an owner that holds \<open>..\<close> segments
  moves the directory out of the layout, with slashes on POSIX and with
  slashes or backslashes on Windows.  A random number with a short rendering
  (0.5 is \<open>0.i\<close>) gives a token of fewer than eight characters.  And on
  Windows the directory is written with backslashes and holds no slash.
\<close>

theorem directory_traversal_counterexample:
  "directory (generateFilePath utcHost jan31 sampleRandom36 (ascii ''visit'') (ascii ''1/../../x'')
       (ascii ''scan.jpg'')) = ascii ''uploads/visits/2024/x''
   \<and> ascii ''uploads/visits/2024/x'' \<noteq> ascii ''uploads/visits/2024/01/patient_1/../../x''
   \<and> filename (generateFilePath utcHost jan31 (ascii ''0.i'') (ascii ''visit'') (ascii ''12345678901'')
       (ascii ''scan.jpg'')) = ascii ''visit_2024-01-31T00-00-00-000Z_i.jpg''
   \<and> directory (generateFilePath windowsHost jan31 sampleRandom36 (ascii ''visit'')
       (ascii ''12345678901'') (ascii ''scan.jpg''))
       = ascii ''uploads'' @ [92] @ ascii ''visits'' @ [92] @ ascii ''2024'' @ [92] @ ascii ''01'' @ [92]
           @ ascii ''patient_12345678901''
   \<and> 47 \<notin> set (directory (generateFilePath windowsHost jan31 sampleRandom36 (ascii ''visit'')
       (ascii ''12345678901'') (ascii ''scan.jpg'')))
   \<and> directory (generateFilePath windowsHost jan31 sampleRandom36 (ascii ''visit'')
       (ascii ''1'' @ [92] @ ascii ''..'' @ [92] @ ascii ''x'') (ascii ''scan.jpg''))
       = ascii ''uploads'' @ [92] @ ascii ''visits'' @ [92] @ ascii ''2024'' @ [92] @ ascii ''01'' @ [92]
           @ ascii ''x''"
proof -
  have j: "pathJoin utcHost [ascii ''uploads'', ascii ''visits'', ascii ''2024'', ascii ''01'',
             ascii ''patient_1/../../x''] = ascii ''uploads/visits/2024/x''"
    by code_simp
  have d: "directory (generateFilePath utcHost jan31 sampleRandom36 (ascii ''visit'') (ascii ''1/../../x'')
       (ascii ''scan.jpg'')) = ascii ''uploads/visits/2024/x''"
    unfolding j [symmetric]
    by (simp add: generateFilePath_def Let_def LocalTime_utcHost YearFromTime_jan31
        MonthFromTime_jan31 showInt_2024 pad_2_1) (simp add: ascii_def)
  have n: "ascii ''uploads/visits/2024/x'' \<noteq> ascii ''uploads/visits/2024/01/patient_1/../../x''"
    by (simp add: ascii_def)
  have x: "extname utcHost (ascii ''scan.jpg'') = ascii ''.jpg''"
    by code_simp
  have f: "filename (generateFilePath utcHost jan31 (ascii ''0.i'') (ascii ''visit'') (ascii ''12345678901'')
       (ascii ''scan.jpg'')) = ascii ''visit_2024-01-31T00-00-00-000Z_i.jpg''"
    unfolding generateFilePath_def Let_def timestamp_jan31 x
    by (simp add: substring_def ascii_def)
  have k: "pathJoin windowsHost [ascii ''uploads'', ascii ''visits'', ascii ''2024'', ascii ''01'',
             ascii ''patient_12345678901'']
           = ascii ''uploads'' @ [92] @ ascii ''visits'' @ [92] @ ascii ''2024'' @ [92] @ ascii ''01'' @ [92]
           @ ascii ''patient_12345678901''"
    by code_simp
  have w: "directory (generateFilePath windowsHost jan31 sampleRandom36 (ascii ''visit'')
       (ascii ''12345678901'') (ascii ''scan.jpg''))
       = ascii ''uploads'' @ [92] @ ascii ''visits'' @ [92] @ ascii ''2024'' @ [92] @ ascii ''01'' @ [92]
           @ ascii ''patient_12345678901''"
    unfolding k [symmetric]
    by (simp add: generateFilePath_def Let_def LocalTime_windowsHost YearFromTime_jan31
        MonthFromTime_jan31 showInt_2024 pad_2_1) (simp add: ascii_def)
  have v: "47 \<notin> set (directory (generateFilePath windowsHost jan31 sampleRandom36 (ascii ''visit'')
       (ascii ''12345678901'') (ascii ''scan.jpg'')))"
    unfolding w by (simp add: ascii_def)
  have m: "pathJoin windowsHost [ascii ''uploads'', ascii ''visits'', ascii ''2024'', ascii ''01'',
             ascii ''patient_'' @ ascii ''1'' @ [92] @ ascii ''..'' @ [92] @ ascii ''x'']
           = ascii ''uploads'' @ [92] @ ascii ''visits'' @ [92] @ ascii ''2024'' @ [92] @ ascii ''01'' @ [92]
           @ ascii ''x''"
    by code_simp
  have y: "directory (generateFilePath windowsHost jan31 sampleRandom36 (ascii ''visit'')
       (ascii ''1'' @ [92] @ ascii ''..'' @ [92] @ ascii ''x'') (ascii ''scan.jpg''))
       = ascii ''uploads'' @ [92] @ ascii ''visits'' @ [92] @ ascii ''2024'' @ [92] @ ascii ''01'' @ [92]
           @ ascii ''x''"
    unfolding m [symmetric]
    by (simp add: generateFilePath_def Let_def LocalTime_windowsHost YearFromTime_jan31
        MonthFromTime_jan31 showInt_2024 pad_2_1) (simp add: ascii_def)
  show ?thesis
    using d n f w v y by blast
qed

theorem generateFilePath_layout_witness:
  "directory (generateFilePath utcHost jan31 sampleRandom36 (ascii ''visit'') (ascii ''12345678901'')
       (ascii ''scan.jpg'')) = ascii ''uploads/visits/2024/01/patient_12345678901''
   \<and> filename (generateFilePath utcHost jan31 sampleRandom36 (ascii ''visit'') (ascii ''12345678901'')
       (ascii ''scan.jpg'')) = ascii ''visit_2024-01-31T00-00-00-000Z_4fzyo82m.jpg''
   \<and> fullPath (generateFilePath utcHost jan31 sampleRandom36 (ascii ''visit'') (ascii ''12345678901'')
       (ascii ''scan.jpg''))
       = ascii ''uploads/visits/2024/01/patient_12345678901/visit_2024-01-31T00-00-00-000Z_4fzyo82m.jpg''
   \<and> 92 \<notin> set (relativePath (generateFilePath utcHost jan31 sampleRandom36 (ascii ''visit'')
       (ascii ''12345678901'') (ascii ''scan.jpg'')))
   \<and> extname utcHost (ascii ''scan'') = []
   \<and> directory (generateFilePath windowsHost jan31 sampleRandom36 (ascii ''visit'')
       (ascii ''12345678901'') (ascii ''scan.jpg''))
       = ascii ''uploads'' @ [92] @ ascii ''visits'' @ [92] @ ascii ''2024'' @ [92] @ ascii ''01'' @ [92]
           @ ascii ''patient_12345678901''
   \<and> fullPath (generateFilePath windowsHost jan31 sampleRandom36 (ascii ''visit'')
       (ascii ''12345678901'') (ascii ''scan.jpg''))
       = ascii ''uploads'' @ [92] @ ascii ''visits'' @ [92] @ ascii ''2024'' @ [92] @ ascii ''01'' @ [92]
           @ ascii ''patient_12345678901'' @ [92] @ ascii ''visit_2024-01-31T00-00-00-000Z_4fzyo82m.jpg''
   \<and> relativePath (generateFilePath windowsHost jan31 sampleRandom36 (ascii ''visit'')
       (ascii ''12345678901'') (ascii ''scan.jpg''))
       = ascii ''uploads/visits/2024/01/patient_12345678901/visit_2024-01-31T00-00-00-000Z_4fzyo82m.jpg''"
proof -
  let ?u = "generateFilePath utcHost jan31 sampleRandom36 (ascii ''visit'') (ascii ''12345678901'')
       (ascii ''scan.jpg'')"
  let ?w = "generateFilePath windowsHost jan31 sampleRandom36 (ascii ''visit'') (ascii ''12345678901'')
       (ascii ''scan.jpg'')"
  note t = generateFilePath_layout [where h = utcHost and now = jan31 and ?random36.0 = sampleRandom36
      and uploadType = "ascii ''visit''" and patientId = "ascii ''12345678901''"
      and originalFilename = "ascii ''scan.jpg''" and b = "ascii ''scan''" and e = "ascii ''jpg''"]
  note w = generateFilePath_layout [where h = windowsHost and now = jan31 and ?random36.0 = sampleRandom36
      and uploadType = "ascii ''visit''" and patientId = "ascii ''12345678901''"
      and originalFilename = "ascii ''scan.jpg''" and b = "ascii ''scan''" and e = "ascii ''jpg''"]
  have s: "ascii ''scan.jpg'' = ascii ''scan'' @ 46 # ascii ''jpg'' \<and> ascii ''scan'' \<noteq> []
      \<and> ascii ''jpg'' \<noteq> [] \<and> 46 \<notin> set (ascii ''jpg'')"
    by (simp add: ascii_def)
  have sep: "separatorOf utcHost = 47" "separatorOf windowsHost = 92"
    by (simp_all add: separatorOf_def utcHost_def windowsHost_def)
  have tok: "substring 2 10 sampleRandom36 = ascii ''4fzyo82m''"
    by (simp add: substring_def sampleRandom36_def ascii_def)
  have xu: "extname utcHost (ascii ''scan.jpg'') = 46 # ascii ''jpg''"
    using t s separatorFree_samples(4,5) [of utcHost] by blast
  have xw: "extname windowsHost (ascii ''scan.jpg'') = 46 # ascii ''jpg''"
    using w s separatorFree_samples(4,5) [of windowsHost] by blast
  have au: "separatorFree utcHost (ascii ''visit'') \<and> separatorFree utcHost (ascii ''12345678901'')
      \<and> separatorFree utcHost sampleRandom36 \<and> separatorFree utcHost (extname utcHost (ascii ''scan.jpg''))"
    unfolding xu using separatorFree_samples [of utcHost] by blast
  have aw: "separatorFree windowsHost (ascii ''visit'') \<and> separatorFree windowsHost (ascii ''12345678901'')
      \<and> separatorFree windowsHost sampleRandom36
      \<and> separatorFree windowsHost (extname windowsHost (ascii ''scan.jpg''))"
    unfolding xw using separatorFree_samples [of windowsHost] by blast
  have fu: "filename ?u = ascii ''visit'' @ ascii ''_'' @ replaceColonDot (toISOString jan31)
         @ ascii ''_'' @ substring 2 10 sampleRandom36 @ extname utcHost (ascii ''scan.jpg'')"
    using t by blast
  have fu': "filename ?u = ascii ''visit_2024-01-31T00-00-00-000Z_4fzyo82m.jpg''"
    unfolding fu toISOString_jan31 xu tok by (simp add: ascii_def)
  have fw: "filename ?w = ascii ''visit'' @ ascii ''_'' @ replaceColonDot (toISOString jan31)
         @ ascii ''_'' @ substring 2 10 sampleRandom36 @ extname windowsHost (ascii ''scan.jpg'')"
    using w by blast
  have fw': "filename ?w = ascii ''visit_2024-01-31T00-00-00-000Z_4fzyo82m.jpg''"
    unfolding fw toISOString_jan31 xw tok by (simp add: ascii_def)
  have du: "directory ?u = ascii ''uploads'' @ [separatorOf utcHost] @ ascii ''visit'' @ ascii ''s''
         @ [separatorOf utcHost] @ showInt (YearFromTime (LocalTime utcHost jan31)) @ [separatorOf utcHost]
         @ pad 2 (MonthFromTime (LocalTime utcHost jan31) + 1) @ [separatorOf utcHost]
         @ ascii ''patient_'' @ ascii ''12345678901''"
    using t au by blast
  have du': "directory ?u = ascii ''uploads/visits/2024/01/patient_12345678901''"
    unfolding du sep LocalTime_utcHost YearFromTime_jan31 MonthFromTime_jan31 showInt_2024
    by (simp add: pad_2_1) (simp add: ascii_def)
  have pu: "fullPath ?u = directory ?u @ [separatorOf utcHost] @ filename ?u"
    using t au by blast
  have pu': "fullPath ?u
       = ascii ''uploads/visits/2024/01/patient_12345678901/visit_2024-01-31T00-00-00-000Z_4fzyo82m.jpg''"
    unfolding pu du' fu' sep by (simp add: ascii_def)
  have ru: "92 \<notin> set (relativePath ?u)"
    using t by blast
  have n: "extname utcHost (ascii ''scan'') = []"
    using generateFilePath_layout [where h = utcHost and originalFilename = "ascii ''scan''"]
    by (simp add: ascii_def)
  have dw: "directory ?w = ascii ''uploads'' @ [separatorOf windowsHost] @ ascii ''visit'' @ ascii ''s''
         @ [separatorOf windowsHost] @ showInt (YearFromTime (LocalTime windowsHost jan31))
         @ [separatorOf windowsHost] @ pad 2 (MonthFromTime (LocalTime windowsHost jan31) + 1)
         @ [separatorOf windowsHost] @ ascii ''patient_'' @ ascii ''12345678901''"
    using w aw by blast
  have dw': "directory ?w = ascii ''uploads'' @ [92] @ ascii ''visits'' @ [92] @ ascii ''2024'' @ [92]
         @ ascii ''01'' @ [92] @ ascii ''patient_12345678901''"
    unfolding dw sep LocalTime_windowsHost YearFromTime_jan31 MonthFromTime_jan31 showInt_2024
    by (simp add: pad_2_1) (simp add: ascii_def)
  have pw: "fullPath ?w = directory ?w @ [separatorOf windowsHost] @ filename ?w"
    using w aw by blast
  have pw': "fullPath ?w = ascii ''uploads'' @ [92] @ ascii ''visits'' @ [92] @ ascii ''2024'' @ [92]
         @ ascii ''01'' @ [92] @ ascii ''patient_12345678901'' @ [92]
         @ ascii ''visit_2024-01-31T00-00-00-000Z_4fzyo82m.jpg''"
    unfolding pw dw' fw' sep by simp
  have rw: "relativePath ?w = ascii ''uploads/'' @ replaceBackslashes (ascii ''visit'') @ ascii ''s/''
         @ showInt (YearFromTime (LocalTime windowsHost jan31)) @ ascii ''/''
         @ pad 2 (MonthFromTime (LocalTime windowsHost jan31) + 1) @ ascii ''/patient_''
         @ replaceBackslashes (ascii ''12345678901'') @ ascii ''/'' @ replaceBackslashes (filename ?w)"
    using w aw by blast
  have rw': "relativePath ?w
       = ascii ''uploads/visits/2024/01/patient_12345678901/visit_2024-01-31T00-00-00-000Z_4fzyo82m.jpg''"
    unfolding rw fw' LocalTime_windowsHost YearFromTime_jan31 MonthFromTime_jan31 showInt_2024
    by (simp add: pad_2_1) (simp add: ascii_def)
  show ?thesis
    using du' fu' pu' ru n dw' pw' rw' by blast
qed

end
